theory Spec2Isabelle
  imports Main
begin

section \<open>Presence registry and realtime relay (server.js)\<close>

text \<open>
  Identities and connection handles are JavaScript strings. Strings are modelled as
  lists of code units below 256.
\<close>

type_synonym user_id = string
type_synonym socket_id = string
type_synonym object_id = nat
type_synonym date = nat

subsection \<open>The object \<open>userSocketMap\<close> used as a dictionary\<close>

text \<open>
  \<open>const userSocketMap = {}\<close> is a plain object whose prototype is \<open>Object.prototype\<close>.
  Its own properties (user id to socket id) are an association list in creation order
  with one entry per key. Reading a key that is not an own property reaches the
  prototype: the names below are its members, every one a function except \<open>__proto__\<close>,
  an accessor whose getter yields the prototype itself.
\<close>

type_synonym user_socket_map = "(user_id \<times> socket_id) list"

definition object_prototype_members :: "string list" where
  "object_prototype_members =
     [''constructor'', ''__defineGetter__'', ''__defineSetter__'', ''hasOwnProperty'',
      ''__lookupGetter__'', ''__lookupSetter__'', ''isPrototypeOf'', ''propertyIsEnumerable'',
      ''toString'', ''valueOf'', ''__proto__'', ''toLocaleString'']"

text \<open>
  What a read of the object can yield: \<open>undefined\<close>, a socket id, or the member of
  \<open>Object.prototype\<close> of the given name (an object, never a string).
\<close>

datatype js_value = Undefined | Str string | Inherited string

text \<open>
  \<open>userSocketMap[k] = v\<close> with a string \<open>v\<close>: an existing own property is overwritten
  in place, a new one is appended; the members of the prototype are shadowed like any
  other key, except that assigning to \<open>__proto__\<close> runs the prototype's setter, which
  ignores a string and creates no property.
\<close>

fun alist_set :: "user_socket_map \<Rightarrow> user_id \<Rightarrow> socket_id \<Rightarrow> user_socket_map" where
  "alist_set [] k v = [(k, v)]"
| "alist_set ((k', v') # rest) k v =
     (if k' = k then (k, v) # rest else (k', v') # alist_set rest k v)"

definition obj_set :: "user_socket_map \<Rightarrow> user_id \<Rightarrow> socket_id \<Rightarrow> user_socket_map" where
  "obj_set m k v = (if k = ''__proto__'' then m else alist_set m k v)"

definition obj_get :: "user_socket_map \<Rightarrow> user_id \<Rightarrow> js_value" where
  "obj_get m k =
     (case map_of m k of
        Some v \<Rightarrow> Str v
      | None \<Rightarrow> if k \<in> set object_prototype_members then Inherited k else Undefined)"

definition obj_delete :: "user_socket_map \<Rightarrow> user_id \<Rightarrow> user_socket_map" where
  "obj_delete m k = filter (\<lambda>e. fst e \<noteq> k) m"

text \<open>
  \<open>Object.keys\<close> and \<open>Object.entries\<close> list the own properties: first the keys that
  are array indices (canonical decimal numerals up to \<open>2^32 - 2\<close>) in ascending order,
  then the other keys in creation order.
\<close>

definition is_digit :: "char \<Rightarrow> bool" where
  "is_digit c = (48 \<le> (of_char c :: nat) \<and> (of_char c :: nat) \<le> 57)"

definition decimal :: "string \<Rightarrow> nat" where
  "decimal t = foldl (\<lambda>n c. 10 * n + ((of_char c :: nat) - 48)) 0 t"

definition array_index :: "string \<Rightarrow> nat option" where
  "array_index k =
     (if k \<noteq> [] \<and> list_all is_digit k \<and> (k = ''0'' \<or> hd k \<noteq> CHR ''0'') \<and>
         decimal k \<le> 4294967294
      then Some (decimal k) else None)"

definition obj_entries :: "user_socket_map \<Rightarrow> (user_id \<times> socket_id) list" where
  "obj_entries m =
     sort_key (\<lambda>e. the (array_index (fst e))) (filter (\<lambda>e. array_index (fst e) \<noteq> None) m) @
     filter (\<lambda>e. array_index (fst e) = None) m"

definition obj_keys :: "user_socket_map \<Rightarrow> user_id list" where
  "obj_keys m = map fst (obj_entries m)"

text \<open>
  Truthiness. Of a value that is a string or absent (a query parameter, a body field):
  present and not empty. Of what a read of the object yields: a non-empty string, or any
  object.
\<close>

definition truthy :: "string option \<Rightarrow> bool" where
  "truthy v = (case v of None \<Rightarrow> False | Some t \<Rightarrow> t \<noteq> [])"

fun truthy_value :: "js_value \<Rightarrow> bool" where
  "truthy_value Undefined = False"
| "truthy_value (Str t) = (t \<noteq> [])"
| "truthy_value (Inherited k) = True"

subsection \<open>Events and emissions\<close>

record typing_data =
  t_senderId :: user_id
  t_receiverId :: user_id
  t_isTyping :: bool

record read_data =
  r_senderId :: user_id
  r_messageId :: string
  r_readBy :: user_id

record user_proj =
  u_id :: user_id
  username :: string
  fullName :: string
  profilePic :: string

datatype message_type = TextMessage | ImageMessage | FileMessage

text \<open>
  A populated message: the message document with \<open>senderId\<close> and \<open>receiverId\<close>
  replaced by the selected projection of the user (\<open>None\<close> when no such user exists).
\<close>

record populated_message =
  p_id :: object_id
  p_senderId :: "user_proj option"
  p_receiverId :: "user_proj option"
  p_message :: string
  p_conversationId :: object_id
  p_isRead :: bool
  p_messageType :: message_type

datatype payload =
    GetOnlineUsers "user_id list"
  | Typing user_id bool
  | MessageRead string user_id
  | NewMessage populated_message

text \<open>
  The three ways the code emits: \<open>io.emit\<close> (every connected socket), \<open>io.to(room).emit\<close>
  (the sockets of a room) and \<open>socket.to(room).emit\<close> (the sockets of a room except
  the emitting socket, which is the first argument of \<open>SocketTo\<close>). The room is whatever
  value the code read from \<open>userSocketMap\<close>.
\<close>

datatype emission =
    IoEmit payload
  | IoTo js_value payload
  | SocketTo socket_id js_value payload

text \<open>
  Every socket is alone in the room named by its own id (the code never calls \<open>join\<close>),
  and no socket is in a room that is not a string. So the recipients of an emission
  among the connected sockets are:
\<close>

fun room_members :: "socket_id set \<Rightarrow> js_value \<Rightarrow> socket_id set" where
  "room_members conn (Str room) = conn \<inter> {room}"
| "room_members conn Undefined = {}"
| "room_members conn (Inherited k) = {}"

fun recipients :: "socket_id set \<Rightarrow> emission \<Rightarrow> socket_id set" where
  "recipients conn (IoEmit p) = conn"
| "recipients conn (IoTo room p) = room_members conn room"
| "recipients conn (SocketTo me room p) = room_members conn room - {me}"

fun payload_of :: "emission \<Rightarrow> payload" where
  "payload_of (IoEmit p) = p"
| "payload_of (IoTo room p) = p"
| "payload_of (SocketTo me room p) = p"

text \<open>What reaches which socket when a list of emissions is carried out.\<close>

definition deliveries :: "socket_id set \<Rightarrow> emission list \<Rightarrow> (socket_id \<times> payload) set" where
  "deliveries conn es = (\<Union>e \<in> set es. (\<lambda>s. (s, payload_of e)) ` recipients conn e)"

record relay_state =
  userSocketMap :: user_socket_map
  connected :: "socket_id set"

definition initial_relay :: relay_state where
  "initial_relay = \<lparr>userSocketMap = [], connected = {}\<rparr>"

subsection \<open>Handlers\<close>

text \<open>
  \<open>io.on("connection")\<close>: the handshake's \<open>userId\<close> query parameter may be absent.
\<close>

definition on_connection ::
  "relay_state \<Rightarrow> socket_id \<Rightarrow> string option \<Rightarrow> relay_state \<times> emission list" where
  "on_connection st sock userId =
     (let st1 = st\<lparr>connected := insert sock (connected st)\<rparr>;
          st2 = (if truthy userId \<and> userId \<noteq> Some ''undefined''
                 then st1\<lparr>userSocketMap := obj_set (userSocketMap st1) (the userId) sock\<rparr>
                 else st1)
      in (st2, [IoEmit (GetOnlineUsers (obj_keys (userSocketMap st2)))]))"

definition on_typing ::
  "relay_state \<Rightarrow> socket_id \<Rightarrow> typing_data \<Rightarrow> relay_state \<times> emission list" where
  "on_typing st sock data =
     (let receiverSocketId = obj_get (userSocketMap st) (t_receiverId data)
      in if truthy_value receiverSocketId
         then (st, [SocketTo sock receiverSocketId
                      (Typing (t_senderId data) (t_isTyping data))])
         else (st, []))"

definition on_messageRead ::
  "relay_state \<Rightarrow> socket_id \<Rightarrow> read_data \<Rightarrow> relay_state \<times> emission list" where
  "on_messageRead st sock data =
     (let senderSocketId = obj_get (userSocketMap st) (r_senderId data)
      in if truthy_value senderSocketId
         then (st, [SocketTo sock senderSocketId
                      (MessageRead (r_messageId data) (r_readBy data))])
         else (st, []))"

text \<open>
  The loop of the disconnect handler walks \<open>Object.entries(userSocketMap)\<close> and deletes
  the key of the first entry whose value is the closing socket, then stops.
\<close>

fun remove_socket :: "user_socket_map \<Rightarrow> (user_id \<times> socket_id) list \<Rightarrow> socket_id \<Rightarrow> user_socket_map" where
  "remove_socket m [] sock = m"
| "remove_socket m ((userId, socketId) # rest) sock =
     (if socketId = sock then obj_delete m userId else remove_socket m rest sock)"

definition on_disconnect ::
  "relay_state \<Rightarrow> socket_id \<Rightarrow> relay_state \<times> emission list" where
  "on_disconnect st sock =
     (let st1 = st\<lparr>connected := connected st - {sock}\<rparr>;
          st2 = st1\<lparr>userSocketMap :=
                      remove_socket (userSocketMap st1) (obj_entries (userSocketMap st1)) sock\<rparr>
      in (st2, [IoEmit (GetOnlineUsers (obj_keys (userSocketMap st2)))]))"

definition getReceiverSocketId :: "relay_state \<Rightarrow> user_id \<Rightarrow> js_value" where
  "getReceiverSocketId st receiverId = obj_get (userSocketMap st) receiverId"

text \<open>The registry's own entry for a user: the connection the user is registered with.\<close>

definition registered :: "relay_state \<Rightarrow> user_id \<Rightarrow> socket_id option" where
  "registered st u = map_of (userSocketMap st) u"

text \<open>
  What the handlers keep true of the registry when every connecting socket is new and
  carries a non-empty id: one entry per user, no socket registered twice, and only
  connected sockets, none with an empty id, registered.
\<close>

definition relay_ok :: "relay_state \<Rightarrow> bool" where
  "relay_ok st =
     (distinct (map fst (userSocketMap st)) \<and> distinct (map snd (userSocketMap st)) \<and>
      snd ` set (userSocketMap st) \<subseteq> connected st \<and> [] \<notin> connected st)"

section \<open>Persistent store (models/Conversation.js, models/Message.js)\<close>

text \<open>
  A collection is the list of its documents in natural (insertion) order. Object ids are
  drawn from a counter kept with the store. The fields are those the schemas declare;
  the \<open>createdAt\<close>/\<open>updatedAt\<close> stamps that the \<open>timestamps\<close> option lets the
  library maintain are not part of the model. Identifiers arriving in requests are taken
  as well-formed, and the store as available (no request ends in the 500 branch).
\<close>

record message_doc =
  msg_id :: object_id
  senderId :: user_id
  receiverId :: user_id
  message :: string
  conversationId :: object_id
  isRead :: bool
  messageType :: message_type

record conversation_doc =
  conv_id :: object_id
  participants :: "user_id list"
  messages :: "object_id list"
  lastMessage :: "object_id option"
  lastMessageTime :: date
  isGroup :: bool
  groupName :: "string option"
  groupAdmin :: "user_id option"

record store =
  userColl :: "user_proj list"
  conversationColl :: "conversation_doc list"
  messageColl :: "message_doc list"
  nextId :: object_id

definition empty_store :: store where
  "empty_store = \<lparr>userColl = [], conversationColl = [], messageColl = [], nextId = 0\<rparr>"

subsection \<open>Queries and updates used by the routes\<close>

text \<open>\<open>{ participants: { $all: ids } }\<close>: the array holds every listed id.\<close>

definition participants_all :: "user_id list \<Rightarrow> conversation_doc \<Rightarrow> bool" where
  "participants_all ids c = list_all (\<lambda>u. u \<in> set (participants c)) ids"

definition Conversation_findOne :: "store \<Rightarrow> (conversation_doc \<Rightarrow> bool) \<Rightarrow> conversation_doc option" where
  "Conversation_findOne s q = find q (conversationColl s)"

definition Conversation_findById :: "store \<Rightarrow> object_id \<Rightarrow> conversation_doc option" where
  "Conversation_findById s i = find (\<lambda>c. conv_id c = i) (conversationColl s)"

definition Message_findById :: "store \<Rightarrow> object_id \<Rightarrow> message_doc option" where
  "Message_findById s i = find (\<lambda>m. msg_id m = i) (messageColl s)"

text \<open>
  \<open>Conversation.create({participants})\<close>: a fresh id and the schema's defaults;
  \<open>lastMessageTime\<close> defaults to the time of creation.
\<close>

definition Conversation_create :: "store \<Rightarrow> date \<Rightarrow> user_id list \<Rightarrow> conversation_doc \<times> store" where
  "Conversation_create s now ps =
     (let c = \<lparr>conv_id = nextId s, participants = ps, messages = [], lastMessage = None,
               lastMessageTime = now, isGroup = False, groupName = None, groupAdmin = None\<rparr>
      in (c, s\<lparr>conversationColl := conversationColl s @ [c], nextId := Suc (nextId s)\<rparr>))"

text \<open>\<open>new Message({...})\<close> takes its id at construction; \<open>save()\<close> inserts it.\<close>

definition new_Message ::
  "store \<Rightarrow> user_id \<Rightarrow> user_id \<Rightarrow> string \<Rightarrow> object_id \<Rightarrow> message_doc \<times> store" where
  "new_Message s sid rid txt cid =
     (\<lparr>msg_id = nextId s, senderId = sid, receiverId = rid, message = txt,
       conversationId = cid, isRead = False, messageType = TextMessage\<rparr>,
      s\<lparr>nextId := Suc (nextId s)\<rparr>)"

definition Message_save :: "store \<Rightarrow> message_doc \<Rightarrow> store" where
  "Message_save s m = s\<lparr>messageColl := messageColl s @ [m]\<rparr>"

text \<open>Writing a loaded document back: the stored document of that id is replaced.\<close>

fun replace_conv :: "conversation_doc list \<Rightarrow> conversation_doc \<Rightarrow> conversation_doc list" where
  "replace_conv [] c = []"
| "replace_conv (d # ds) c = (if conv_id d = conv_id c then c # ds else d # replace_conv ds c)"

definition Conversation_save :: "store \<Rightarrow> conversation_doc \<Rightarrow> store" where
  "Conversation_save s c = s\<lparr>conversationColl := replace_conv (conversationColl s) c\<rparr>"

text \<open>\<open>Message.updateMany(filter, { isRead: true })\<close>.\<close>

definition Message_updateMany_isRead :: "store \<Rightarrow> (message_doc \<Rightarrow> bool) \<Rightarrow> store" where
  "Message_updateMany_isRead s q =
     s\<lparr>messageColl := map (\<lambda>m. if q m then m\<lparr>isRead := True\<rparr> else m) (messageColl s)\<rparr>"

text \<open>\<open>Message.findByIdAndDelete(id)\<close> removes the document of that id.\<close>

fun delete_msg :: "message_doc list \<Rightarrow> object_id \<Rightarrow> message_doc list" where
  "delete_msg [] i = []"
| "delete_msg (m # ms) i = (if msg_id m = i then ms else m # delete_msg ms i)"

definition Message_findByIdAndDelete :: "store \<Rightarrow> object_id \<Rightarrow> store" where
  "Message_findByIdAndDelete s i = s\<lparr>messageColl := delete_msg (messageColl s) i\<rparr>"

text \<open>
  \<open>Conversation.findByIdAndUpdate(id, { $pull: { messages: mid } })\<close>: every occurrence
  of \<open>mid\<close> leaves the array of the document of that id.
\<close>

fun pull_message :: "conversation_doc list \<Rightarrow> object_id \<Rightarrow> object_id \<Rightarrow> conversation_doc list" where
  "pull_message [] i mid = []"
| "pull_message (d # ds) i mid =
     (if conv_id d = i then d\<lparr>messages := removeAll mid (messages d)\<rparr> # ds
      else d # pull_message ds i mid)"

definition Conversation_findByIdAndUpdate_pull :: "store \<Rightarrow> object_id \<Rightarrow> object_id \<Rightarrow> store" where
  "Conversation_findByIdAndUpdate_pull s i mid =
     s\<lparr>conversationColl := pull_message (conversationColl s) i mid\<rparr>"

subsection \<open>Population\<close>

definition populate_user :: "store \<Rightarrow> user_id \<Rightarrow> user_proj option" where
  "populate_user s u = find (\<lambda>d. u_id d = u) (userColl s)"

definition populate_message :: "store \<Rightarrow> message_doc \<Rightarrow> populated_message" where
  "populate_message s m =
     \<lparr>p_id = msg_id m, p_senderId = populate_user s (senderId m),
      p_receiverId = populate_user s (receiverId m), p_message = message m,
      p_conversationId = conversationId m, p_isRead = isRead m,
      p_messageType = messageType m\<rparr>"

text \<open>
  Populating the \<open>messages\<close> path keeps the order of the id array; an id without a
  document yields no element.
\<close>

definition populate_messages :: "store \<Rightarrow> object_id list \<Rightarrow> populated_message list" where
  "populate_messages s ids =
     map (populate_message s) (List.map_filter (Message_findById s) ids)"

section \<open>Message routes (routes/messageRoutes.js)\<close>

datatype body =
    Error string
  | Info string
  | Messages "populated_message list"
  | PopulatedMessage populated_message

datatype response = Response (status: nat) (json: body)

text \<open>\<open>String.prototype.trim\<close> on code units below 256: TAB, LF, VT, FF, CR, SP, NBSP.\<close>

definition is_ws :: "char \<Rightarrow> bool" where
  "is_ws c = (c \<in> set [CHR 0x09, CHR 0x0A, CHR 0x0B, CHR 0x0C, CHR 0x0D, CHR 0x20, CHR 0xA0])"

definition trim :: "string \<Rightarrow> string" where
  "trim t = rev (dropWhile is_ws (rev (dropWhile is_ws t)))"

subsection \<open>GET /api/message/:id\<close>

definition get_messages :: "store \<Rightarrow> user_id \<Rightarrow> user_id \<Rightarrow> response \<times> store" where
  "get_messages s userId userToChatId =
     (case Conversation_findOne s (participants_all [userId, userToChatId]) of
        None \<Rightarrow> (Response 200 (Messages []), s)
      | Some conversation \<Rightarrow>
          (let populated = populate_messages s (messages conversation);
               s' = Message_updateMany_isRead s
                      (\<lambda>m. conversationId m = conv_id conversation \<and>
                            senderId m = userToChatId \<and> receiverId m = userId \<and>
                            isRead m = False)
           in (Response 200 (Messages populated), s')))"

subsection \<open>POST /api/message/send/:id\<close>

text \<open>
  The request body's \<open>message\<close> is a string or absent. The handler answers with the
  response, the store and what it emitted through the socket server.
\<close>

definition send_message ::
  "relay_state \<Rightarrow> store \<Rightarrow> date \<Rightarrow> user_id \<Rightarrow> user_id \<Rightarrow> string option
     \<Rightarrow> response \<times> store \<times> emission list" where
  "send_message rs s now sender receiver msg =
     (if \<not> truthy msg \<or> trim (the msg) = []
      then (Response 400 (Error ''Message content is required''), s, [])
      else
        (let (conversation, s1) =
               (case Conversation_findOne s (participants_all [sender, receiver]) of
                  Some c \<Rightarrow> (c, s)
                | None \<Rightarrow> Conversation_create s now [sender, receiver]);
             (newMessage, s2) = new_Message s1 sender receiver (trim (the msg)) (conv_id conversation);
             s3 = Message_save s2 newMessage;
             conversation' = conversation\<lparr>messages := messages conversation @ [msg_id newMessage],
                                          lastMessage := Some (msg_id newMessage),
                                          lastMessageTime := now\<rparr>;
             s4 = Conversation_save s3 conversation';
             populated = populate_message s4 newMessage;
             receiverSocketId = getReceiverSocketId rs receiver
         in (Response 201 (PopulatedMessage populated), s4,
             (if truthy_value receiverSocketId
              then [IoTo receiverSocketId (NewMessage populated)] else []))))"

subsection \<open>DELETE /api/message/:messageId\<close>

definition delete_message :: "store \<Rightarrow> user_id \<Rightarrow> object_id \<Rightarrow> response \<times> store" where
  "delete_message s userId messageId =
     (case Message_findById s messageId of
        None \<Rightarrow> (Response 404 (Error ''Message not found''), s)
      | Some m \<Rightarrow>
          if senderId m \<noteq> userId
          then (Response 403 (Error ''Not authorized to delete this message''), s)
          else
            (let s1 = Message_findByIdAndDelete s messageId;
                 s2 = Conversation_findByIdAndUpdate_pull s1 (conversationId m) messageId
             in (Response 200 (Info ''Message deleted successfully''), s2)))"

subsection \<open>PUT /api/message/read/:conversationId\<close>

definition mark_read :: "store \<Rightarrow> user_id \<Rightarrow> object_id \<Rightarrow> response \<times> store" where
  "mark_read s userId cid =
     (let s' = Message_updateMany_isRead s
                 (\<lambda>m. conversationId m = cid \<and> receiverId m = userId \<and> isRead m = False)
      in (Response 200 (Info ''Messages marked as read''), s'))"

subsection \<open>Sequences of requests\<close>

datatype request =
    Get user_id user_id
  | Send date user_id user_id "string option"
  | Delete user_id object_id
  | MarkRead user_id object_id

fun handle :: "relay_state \<Rightarrow> store \<Rightarrow> request \<Rightarrow> response \<times> store" where
  "handle rs s (Get u v) = get_messages s u v"
| "handle rs s (Send now u v msg) =
     (let (r, s', es) = send_message rs s now u v msg in (r, s'))"
| "handle rs s (Delete u i) = delete_message s u i"
| "handle rs s (MarkRead u c) = mark_read s u c"

fun run :: "relay_state \<Rightarrow> store \<Rightarrow> request list \<Rightarrow> response list \<times> store" where
  "run rs s [] = ([], s)"
| "run rs s (q # qs) =
     (let (r, s') = handle rs s q; (rsps, s'') = run rs s' qs in (r # rsps, s''))"

section \<open>The whole service\<close>

text \<open>
  One process owns the registry and talks to the store. An event is a socket event or
  an HTTP request; a step yields the new state, the HTTP response (if the event was a
  request) and the emissions.
\<close>

record app_state =
  relay :: relay_state
  db :: store

datatype event =
    Connection socket_id "string option"
  | TypingEvent socket_id typing_data
  | MessageReadEvent socket_id read_data
  | Disconnect socket_id
  | Http request

fun step :: "app_state \<Rightarrow> event \<Rightarrow> app_state \<times> response option \<times> emission list" where
  "step a (Connection sock q) =
     (let (st, es) = on_connection (relay a) sock q in (a\<lparr>relay := st\<rparr>, None, es))"
| "step a (TypingEvent sock d) =
     (let (st, es) = on_typing (relay a) sock d in (a\<lparr>relay := st\<rparr>, None, es))"
| "step a (MessageReadEvent sock d) =
     (let (st, es) = on_messageRead (relay a) sock d in (a\<lparr>relay := st\<rparr>, None, es))"
| "step a (Disconnect sock) =
     (let (st, es) = on_disconnect (relay a) sock in (a\<lparr>relay := st\<rparr>, None, es))"
| "step a (Http (Send now u v msg)) =
     (let (r, s', es) = send_message (relay a) (db a) now u v msg in (a\<lparr>db := s'\<rparr>, Some r, es))"
| "step a (Http q) =
     (let (r, s') = handle (relay a) (db a) q in (a\<lparr>db := s'\<rparr>, Some r, []))"

fun steps :: "app_state \<Rightarrow> event list \<Rightarrow> app_state" where
  "steps a [] = a"
| "steps a (e # es) = steps (fst (step a e)) es"

text \<open>
  Socket ids are issued by the socket server: a connecting socket carries a non-empty id
  that no connected socket has.
\<close>

fun fresh_connections :: "socket_id set \<Rightarrow> event list \<Rightarrow> bool" where
  "fresh_connections conn [] = True"
| "fresh_connections conn (Connection sock q # es) =
     (sock \<noteq> [] \<and> sock \<notin> conn \<and> fresh_connections (insert sock conn) es)"
| "fresh_connections conn (Disconnect sock # es) = fresh_connections (conn - {sock}) es"
| "fresh_connections conn (TypingEvent sock d # es) = fresh_connections conn es"
| "fresh_connections conn (MessageReadEvent sock d # es) = fresh_connections conn es"
| "fresh_connections conn (Http q # es) = fresh_connections conn es"

subsection \<open>Reading responses and requests\<close>

text \<open>The message objects of a response body (none unless the body is a thread).\<close>

fun body_messages :: "body \<Rightarrow> populated_message list" where
  "body_messages (Messages xs) = xs"
| "body_messages (Error e) = []"
| "body_messages (Info i) = []"
| "body_messages (PopulatedMessage x) = []"

text \<open>The id of the message a send answered with.\<close>

fun sent_id :: "response \<Rightarrow> object_id option" where
  "sent_id (Response st (PopulatedMessage x)) = Some (p_id x)"
| "sent_id (Response st (Messages xs)) = None"
| "sent_id (Response st (Error e)) = None"
| "sent_id (Response st (Info i)) = None"

text \<open>A send request between \<open>a\<close> and \<open>b\<close>, in either direction, that passes validation.\<close>

fun send_between :: "user_id \<Rightarrow> user_id \<Rightarrow> request \<Rightarrow> bool" where
  "send_between a b (Send now u v msg) =
     (((u = a \<and> v = b) \<or> (u = b \<and> v = a)) \<and> truthy msg \<and> trim (the msg) \<noteq> [])"
| "send_between a b (Get u v) = False"
| "send_between a b (Delete u i) = False"
| "send_between a b (MarkRead u c) = False"

subsection \<open>Well-formed stores\<close>

text \<open>
  Ids identify: no two documents of a collection share one, and the id counter is above
  every id in use (stored or referenced).
\<close>

definition store_ok :: "store \<Rightarrow> bool" where
  "store_ok s =
     (distinct (map msg_id (messageColl s)) \<and>
      distinct (map conv_id (conversationColl s)) \<and>
      list_all (\<lambda>m. msg_id m < nextId s) (messageColl s) \<and>
      list_all (\<lambda>c. conv_id c < nextId s \<and> list_all (\<lambda>i. i < nextId s) (messages c))
        (conversationColl s))"

text \<open>
  Every conversation the routes create has two participants: the sender and the receiver
  of its first message, who may be one user.
\<close>

definition pairs_only :: "store \<Rightarrow> bool" where
  "pairs_only s = list_all (\<lambda>c. length (participants c) = 2) (conversationColl s)"

subsection \<open>A sample store\<close>

text \<open>
  The store after alice has sent \<open>hi\<close> to bob and bob has answered \<open>yo\<close>, neither
  message read yet.
\<close>

definition example_conversation :: conversation_doc where
  "example_conversation =
     \<lparr>conv_id = 0, participants = [''alice'', ''bob''], messages = [1, 2],
      lastMessage = Some 2, lastMessageTime = 20, isGroup = False, groupName = None,
      groupAdmin = None\<rparr>"

definition example_hi :: message_doc where
  "example_hi = \<lparr>msg_id = 1, senderId = ''alice'', receiverId = ''bob'', message = ''hi'',
      conversationId = 0, isRead = False, messageType = TextMessage\<rparr>"

definition example_yo :: message_doc where
  "example_yo = \<lparr>msg_id = 2, senderId = ''bob'', receiverId = ''alice'', message = ''yo'',
      conversationId = 0, isRead = False, messageType = TextMessage\<rparr>"

definition example_store :: store where
  "example_store =
     \<lparr>userColl = [], conversationColl = [example_conversation],
      messageColl = [example_hi, example_yo], nextId = 3\<rparr>"

section \<open>Properties of the presence registry\<close>

lemma map_of_alist_set:
  "map_of (alist_set m k v) k' = (if k' = k then Some v else map_of m k')"
  by (induction m k v rule: alist_set.induct) auto

lemma keys_alist_set: "fst ` set (alist_set m k v) = insert k (fst ` set m)"
  by (induction m k v rule: alist_set.induct) auto

lemma distinct_alist_set: "distinct (map fst m) \<Longrightarrow> distinct (map fst (alist_set m k v))"
proof (induction m k v rule: alist_set.induct)
  case (1 k v) then show ?case by simp
next
  case (2 k' v' rest k v)
  then show ?case using keys_alist_set[of rest k v] by auto
qed

lemma set_alist_set: "set (alist_set m k v) \<subseteq> insert (k, v) (set m)"
  by (induction m k v rule: alist_set.induct) auto

lemma distinct_values_alist_set:
  "distinct (map snd m) \<Longrightarrow> v \<notin> snd ` set m \<Longrightarrow> distinct (map snd (alist_set m k v))"
proof (induction m k v rule: alist_set.induct)
  case (1 k v) then show ?case by simp
next
  case (2 k' v' rest k v)
  have "snd ` set (alist_set rest k v) \<subseteq> insert v (snd ` set rest)"
    using set_alist_set[of rest k v] by auto
  with 2 show ?case by (auto simp: image_iff)
qed

lemma map_of_obj_set:
  "k \<noteq> ''__proto__'' \<Longrightarrow>
     map_of (obj_set m k v) k' = (if k' = k then Some v else map_of m k')"
  by (simp add: obj_set_def map_of_alist_set)

lemma obj_set_proto: "obj_set m ''__proto__'' v = m"
  by (simp add: obj_set_def)

lemma distinct_obj_set: "distinct (map fst m) \<Longrightarrow> distinct (map fst (obj_set m k v))"
  by (simp add: obj_set_def distinct_alist_set)

lemma set_obj_set: "set (obj_set m k v) \<subseteq> insert (k, v) (set m)"
  using set_alist_set[of m k v] by (auto simp: obj_set_def)

lemma distinct_values_obj_set:
  "distinct (map snd m) \<Longrightarrow> v \<notin> snd ` set m \<Longrightarrow> distinct (map snd (obj_set m k v))"
  by (simp add: obj_set_def distinct_values_alist_set)

lemma map_of_obj_delete:
  "map_of (obj_delete m k) k' = (if k' = k then None else map_of m k')"
  by (induction m) (auto simp: obj_delete_def)

lemma distinct_obj_delete: "distinct (map fst m) \<Longrightarrow> distinct (map fst (obj_delete m k))"
  by (simp add: obj_delete_def distinct_map_filter)

text \<open>A read of a registered key yields the registered socket id.\<close>

lemma obj_get_registered: "map_of m k = Some h \<Longrightarrow> obj_get m k = Str h"
  by (simp add: obj_get_def)

lemma obj_get_unregistered:
  "map_of m k = None \<Longrightarrow>
     obj_get m k = (if k \<in> set object_prototype_members then Inherited k else Undefined)"
  by (simp add: obj_get_def)

text \<open>The enumeration reorders the own properties and loses none.\<close>

lemma set_obj_entries: "set (obj_entries m) = set m"
  by (auto simp: obj_entries_def)

lemma set_obj_keys: "set (obj_keys m) = fst ` set m"
  by (simp add: obj_keys_def set_obj_entries)

lemma obj_keys_single: "obj_keys [(k, v)] = [k]"
  by (simp add: obj_keys_def obj_entries_def)

lemma obj_keys_empty: "obj_keys [] = []"
  by (simp add: obj_keys_def obj_entries_def)

lemma remove_socket_find:
  "remove_socket m es c = (case find (\<lambda>e. snd e = c) es of None \<Rightarrow> m | Some e \<Rightarrow> obj_delete m (fst e))"
  by (induction m es c rule: remove_socket.induct) auto

lemma find_in_set: "find P es = Some e \<Longrightarrow> e \<in> set es \<and> P e"
  by (induction es) (auto split: if_splits)

lemma distinct_remove_socket: "distinct (map fst m) \<Longrightarrow> distinct (map fst (remove_socket m es c))"
  by (simp add: remove_socket_find distinct_obj_delete split: option.splits)

lemma remove_socket_keeps:
  assumes "map_of m v = Some h" "h \<noteq> c" "distinct (map fst m)" "set es = set m"
  shows "map_of (remove_socket m es c) v = Some h"
proof (cases "find (\<lambda>e. snd e = c) es")
  case None then show ?thesis using assms by (simp add: remove_socket_find)
next
  case (Some e)
  then have "e \<in> set m" "snd e = c" using assms(4) by (auto dest: find_in_set)
  then have "(fst e, c) \<in> set m" by (metis prod.collapse)
  then have "map_of m (fst e) = Some c" using assms(3) by simp
  then have "fst e \<noteq> v" using assms(1,2) by auto
  then show ?thesis using Some assms by (simp add: remove_socket_find map_of_obj_delete)
qed

lemma remove_socket_changed:
  assumes "map_of (remove_socket m es c) v \<noteq> map_of m v" "distinct (map fst m)" "set es = set m"
  shows "map_of m v = Some c \<and> map_of (remove_socket m es c) v = None"
proof (cases "find (\<lambda>e. snd e = c) es")
  case None then show ?thesis using assms by (simp add: remove_socket_find)
next
  case (Some e)
  then have "e \<in> set m" "snd e = c" using assms(3) by (auto dest: find_in_set)
  then have "(fst e, c) \<in> set m" by (metis prod.collapse)
  then have "map_of m (fst e) = Some c" using assms(2) by simp
  moreover have "fst e = v"
    using assms Some by (auto simp: remove_socket_find map_of_obj_delete split: if_splits)
  ultimately show ?thesis using Some by (simp add: remove_socket_find map_of_obj_delete)
qed

lemma remove_socket_removes:
  assumes "map_of m u = Some c" "distinct (map snd m)" "set es = set m"
  shows "map_of (remove_socket m es c) u = None"
proof -
  have in_m: "(u, c) \<in> set m" using assms(1) by (simp add: map_of_SomeD)
  then have "\<exists>x \<in> set es. snd x = c" using assms(3) by force
  then obtain e where e: "find (\<lambda>e. snd e = c) es = Some e"
    by (cases "find (\<lambda>e. snd e = c) es") (auto simp: find_None_iff)
  then have "e \<in> set m" "snd e = c" using assms(3) by (auto dest: find_in_set)
  with in_m assms(2) have "e = (u, c)"
    by (metis distinct_map inj_onD snd_conv)
  then show ?thesis using e by (simp add: remove_socket_find map_of_obj_delete)
qed

text \<open>The registry invariant holds at the start and is kept by the handlers.\<close>

lemma relay_ok_initial: "relay_ok initial_relay"
  by (simp add: relay_ok_def initial_relay_def)

lemma relay_ok_connection:
  assumes "relay_ok st" "sock \<notin> connected st" "sock \<noteq> []"
  shows "relay_ok (fst (on_connection st sock q))"
proof (cases "truthy q \<and> q \<noteq> Some ''undefined''")
  case False
  then have "fst (on_connection st sock q) = st\<lparr>connected := insert sock (connected st)\<rparr>"
    by (auto simp: on_connection_def)
  moreover have "snd ` set (userSocketMap st) \<subseteq> insert sock (connected st)"
    using assms(1) by (auto simp: relay_ok_def)
  ultimately show ?thesis using assms by (simp add: relay_ok_def)
next
  case True
  let ?m = "obj_set (userSocketMap st) (the q) sock"
  have m: "userSocketMap (fst (on_connection st sock q)) = ?m"
    and c: "connected (fst (on_connection st sock q)) = insert sock (connected st)"
    using True by (simp_all add: on_connection_def)
  have nv: "sock \<notin> snd ` set (userSocketMap st)" using assms by (auto simp: relay_ok_def)
  have 1: "distinct (map fst ?m)" using assms(1) by (simp add: relay_ok_def distinct_obj_set)
  have 2: "distinct (map snd ?m)" using assms(1) nv
    by (intro distinct_values_obj_set) (simp_all add: relay_ok_def)
  have "snd ` set ?m \<subseteq> insert sock (snd ` set (userSocketMap st))"
    using set_obj_set[of "userSocketMap st" "the q" sock] by auto
  moreover have "snd ` set (userSocketMap st) \<subseteq> connected st"
    using assms(1) by (simp add: relay_ok_def)
  ultimately have 3: "snd ` set ?m \<subseteq> insert sock (connected st)" by blast
  have 4: "[] \<notin> insert sock (connected st)" using assms by (auto simp: relay_ok_def)
  from 1 2 3 4 show ?thesis by (simp add: relay_ok_def m c)
qed

lemma relay_ok_disconnect:
  assumes "relay_ok st"
  shows "relay_ok (fst (on_disconnect st sock))"
proof -
  let ?m = "userSocketMap st"
  let ?m' = "remove_socket ?m (obj_entries ?m) sock"
  have m: "userSocketMap (fst (on_disconnect st sock)) = ?m'"
    and c: "connected (fst (on_disconnect st sock)) = connected st - {sock}"
    by (simp_all add: on_disconnect_def)
  have sub: "set ?m' \<subseteq> set ?m"
    by (auto simp: remove_socket_find obj_delete_def split: option.splits)
  have 1: "distinct (map fst ?m')" using assms by (simp add: relay_ok_def distinct_remove_socket)
  have 2: "distinct (map snd ?m')" using assms
    by (auto simp: relay_ok_def remove_socket_find obj_delete_def distinct_map_filter
             split: option.splits)
  have 3: "sock \<notin> snd ` set ?m'"
  proof (cases "find (\<lambda>e. snd e = sock) (obj_entries ?m)")
    case None
    then have "remove_socket ?m (obj_entries ?m) sock = ?m" by (simp add: remove_socket_find)
    moreover have "sock \<notin> snd ` set ?m" using None by (auto simp: find_None_iff set_obj_entries)
    ultimately show ?thesis by simp
  next
    case (Some e)
    then have e: "e \<in> set ?m" "snd e = sock" by (auto dest: find_in_set simp: set_obj_entries)
    have "\<And>x. x \<in> set ?m \<Longrightarrow> snd x = sock \<Longrightarrow> x = e"
      using assms e by (metis relay_ok_def distinct_map inj_onD)
    then show ?thesis using Some by (auto simp: remove_socket_find obj_delete_def)
  qed
  have 4: "snd ` set ?m' \<subseteq> connected st - {sock}" using sub 3 assms
    by (auto simp: relay_ok_def)
  have 5: "[] \<notin> connected st - {sock}" using assms by (simp add: relay_ok_def)
  from 1 2 4 5 show ?thesis by (simp add: relay_ok_def m c)
qed

lemma relay_step:
  "relay (fst (step a e)) =
     (case e of Connection sock q \<Rightarrow> fst (on_connection (relay a) sock q)
      | Disconnect sock \<Rightarrow> fst (on_disconnect (relay a) sock)
      | _ \<Rightarrow> relay a)"
proof (cases e)
  case (Http q)
  then show ?thesis by (cases q) (simp_all add: split_beta)
qed (simp_all add: split_beta on_typing_def on_messageRead_def Let_def)

lemma connected_connection: "connected (fst (on_connection st sock q)) = insert sock (connected st)"
  by (simp add: on_connection_def Let_def)

lemma connected_disconnect: "connected (fst (on_disconnect st sock)) = connected st - {sock}"
  by (simp add: on_disconnect_def Let_def)

lemma relay_ok_steps:
  "relay_ok (relay a) \<Longrightarrow> fresh_connections (connected (relay a)) es \<Longrightarrow>
     relay_ok (relay (steps a es))"
proof (induction es arbitrary: a)
  case Nil then show ?case by simp
next
  case (Cons e es)
  have "relay_ok (relay (fst (step a e))) \<and>
        fresh_connections (connected (relay (fst (step a e)))) es"
  proof (cases e)
    case (Connection sock q)
    with Cons.prems show ?thesis
      by (simp del: step.simps add: relay_step relay_ok_connection connected_connection)
  next
    case (Disconnect sock)
    with Cons.prems show ?thesis
      by (simp del: step.simps add: relay_step relay_ok_disconnect connected_disconnect)
  next
    case (TypingEvent sock d)
    with Cons.prems show ?thesis by (simp del: step.simps add: relay_step)
  next
    case (MessageReadEvent sock d)
    with Cons.prems show ?thesis by (simp del: step.simps add: relay_step)
  next
    case (Http q)
    with Cons.prems show ?thesis by (simp del: step.simps add: relay_step)
  qed
  then show ?case using Cons.IH by (simp del: step.simps)
qed

lemma relay_ok_reached:
  "fresh_connections {} es \<Longrightarrow> relay_ok (relay (steps \<lparr>relay = initial_relay, db = s\<rparr> es))"
  using relay_ok_steps[of "\<lparr>relay = initial_relay, db = s\<rparr>" es]
  by (simp add: relay_ok_def initial_relay_def)

text \<open>
  The key \<open>__proto__\<close> cannot be registered: the assignment creates no property, so the
  connection leaves the registry and the broadcast list as they were, and a read of the
  key yields the prototype.
\<close>

lemma connection_proto:
  "userSocketMap (fst (on_connection st c (Some ''__proto__''))) = userSocketMap st"
  by (simp add: on_connection_def truthy_def obj_set_proto)

lemma lookup_proto_unregistered:
  "registered st ''__proto__'' = None \<Longrightarrow> getReceiverSocketId st ''__proto__'' = Inherited ''__proto__''"
  by (simp add: registered_def getReceiverSocketId_def obj_get_def object_prototype_members_def)

text \<open>
  C2. For a user id the registry can hold (not empty, not \<open>undefined\<close>, not the key
  \<open>__proto__\<close>, so in particular every id the store issues), registering a connection
  overwrites that user's entry and no other; a disconnect changes the entry of a user
  only if that user is registered with the closing socket, and then removes it. Hence
  after registering \<open>c1\<close> and then \<open>c2\<close> for \<open>u\<close> and closing \<open>c1\<close>, \<open>u\<close> is still
  registered with \<open>c2\<close>; and on a fresh registry, connecting \<open>a\<close>, connecting \<open>b\<close> and
  disconnecting \<open>a\<close>'s socket leaves exactly \<open>b\<close> registered, which is also the list
  broadcast by the disconnect.
\<close>

theorem presence_last_connection_wins:
  "(u \<noteq> [] \<and> u \<noteq> ''undefined'' \<and> u \<noteq> ''__proto__'' \<longrightarrow>
      registered (fst (on_connection st c (Some u))) u = Some c \<and>
      (\<forall>v. v \<noteq> u \<longrightarrow> registered (fst (on_connection st c (Some u))) v = registered st v)) \<and>
   (distinct (map fst (userSocketMap st)) \<longrightarrow>
      registered (fst (on_disconnect st c)) v \<noteq> registered st v \<longrightarrow>
      registered st v = Some c \<and> registered (fst (on_disconnect st c)) v = None) \<and>
   (distinct (map snd (userSocketMap st)) \<longrightarrow> registered st v = Some c \<longrightarrow>
      registered (fst (on_disconnect st c)) v = None) \<and>
   (u \<noteq> [] \<and> u \<noteq> ''undefined'' \<and> u \<noteq> ''__proto__'' \<and> c1 \<noteq> c2 \<and>
    distinct (map fst (userSocketMap st)) \<longrightarrow>
      registered (fst (on_disconnect
         (fst (on_connection (fst (on_connection st c1 (Some u))) c2 (Some u))) c1)) u = Some c2) \<and>
   (a \<noteq> [] \<and> a \<noteq> ''undefined'' \<and> a \<noteq> ''__proto__'' \<and>
    b \<noteq> [] \<and> b \<noteq> ''undefined'' \<and> b \<noteq> ''__proto__'' \<and> ca \<noteq> cb \<longrightarrow>
      set (obj_keys (userSocketMap (fst (on_disconnect
         (fst (on_connection (fst (on_connection initial_relay ca (Some a))) cb (Some b))) ca)))) = {b} \<and>
      snd (on_disconnect
         (fst (on_connection (fst (on_connection initial_relay ca (Some a))) cb (Some b))) ca)
        = [IoEmit (GetOnlineUsers [b])])"
proof (intro conjI impI)
  assume "u \<noteq> [] \<and> u \<noteq> ''undefined'' \<and> u \<noteq> ''__proto__''"
  then show "registered (fst (on_connection st c (Some u))) u = Some c"
    by (simp add: registered_def on_connection_def truthy_def map_of_obj_set)
next
  assume "u \<noteq> [] \<and> u \<noteq> ''undefined'' \<and> u \<noteq> ''__proto__''"
  then show "\<forall>v. v \<noteq> u \<longrightarrow> registered (fst (on_connection st c (Some u))) v = registered st v"
    by (simp add: registered_def on_connection_def truthy_def map_of_obj_set)
next
  assume "distinct (map fst (userSocketMap st))"
    and "registered (fst (on_disconnect st c)) v \<noteq> registered st v"
  then show "registered st v = Some c"
    and "registered (fst (on_disconnect st c)) v = None"
    using remove_socket_changed[of "userSocketMap st" "obj_entries (userSocketMap st)" c v]
    by (simp_all add: registered_def on_disconnect_def set_obj_entries)
next
  assume "distinct (map snd (userSocketMap st))" and "registered st v = Some c"
  then show "registered (fst (on_disconnect st c)) v = None"
    using remove_socket_removes[of "userSocketMap st" v c "obj_entries (userSocketMap st)"]
    by (simp add: registered_def on_disconnect_def set_obj_entries)
next
  assume h: "u \<noteq> [] \<and> u \<noteq> ''undefined'' \<and> u \<noteq> ''__proto__'' \<and> c1 \<noteq> c2 \<and>
    distinct (map fst (userSocketMap st))"
  let ?m2 = "obj_set (obj_set (userSocketMap st) u c1) u c2"
  have g: "map_of ?m2 u = Some c2" using h by (simp add: map_of_obj_set)
  have d: "distinct (map fst ?m2)" using h by (simp add: distinct_obj_set)
  have k: "c2 \<noteq> c1" using h by auto
  have "map_of (remove_socket ?m2 (obj_entries ?m2) c1) u = Some c2"
    by (rule remove_socket_keeps[OF g k d set_obj_entries])
  then show "registered (fst (on_disconnect
         (fst (on_connection (fst (on_connection st c1 (Some u))) c2 (Some u))) c1)) u = Some c2"
    using h by (simp add: registered_def on_connection_def on_disconnect_def truthy_def)
next
  assume h: "a \<noteq> [] \<and> a \<noteq> ''undefined'' \<and> a \<noteq> ''__proto__'' \<and>
    b \<noteq> [] \<and> b \<noteq> ''undefined'' \<and> b \<noteq> ''__proto__'' \<and> ca \<noteq> cb"
  let ?m = "obj_set (obj_set [] a ca) b cb"
  have r: "remove_socket ?m (obj_entries ?m) ca = [(b, cb)]"
  proof (cases "a = b")
    case True
    then have m: "?m = [(b, cb)]" using h by (simp add: obj_set_def)
    have "cb \<noteq> ca" using h by auto
    then have "find (\<lambda>e. snd e = ca) (obj_entries ?m) = None"
      by (simp add: m find_None_iff set_obj_entries)
    then show ?thesis by (simp add: remove_socket_find m)
  next
    case False
    then have m: "?m = [(a, ca), (b, cb)]" using h by (simp add: obj_set_def)
    have "\<exists>x \<in> set (obj_entries ?m). snd x = ca" by (simp add: m set_obj_entries)
    then obtain e where e: "find (\<lambda>e. snd e = ca) (obj_entries ?m) = Some e"
      by (cases "find (\<lambda>e. snd e = ca) (obj_entries ?m)") (auto simp: find_None_iff)
    then have "e \<in> set ?m \<and> snd e = ca" by (auto dest: find_in_set simp: set_obj_entries)
    then have "e = (a, ca)" using h by (auto simp: m)
    then show ?thesis using e False by (simp add: remove_socket_find m obj_delete_def)
  qed
  have st: "userSocketMap (fst (on_disconnect
         (fst (on_connection (fst (on_connection initial_relay ca (Some a))) cb (Some b))) ca)) = [(b, cb)]"
    using h r by (simp add: on_connection_def on_disconnect_def truthy_def initial_relay_def)
  show "set (obj_keys (userSocketMap (fst (on_disconnect
         (fst (on_connection (fst (on_connection initial_relay ca (Some a))) cb (Some b))) ca)))) = {b}"
    by (simp add: st obj_keys_single)
  show "snd (on_disconnect
         (fst (on_connection (fst (on_connection initial_relay ca (Some a))) cb (Some b))) ca)
        = [IoEmit (GetOnlineUsers [b])]"
    using h r by (simp add: on_connection_def on_disconnect_def truthy_def initial_relay_def
        obj_keys_single)
qed

theorem presence_last_connection_wins_witness:
  "registered (fst (on_connection
       \<lparr>userSocketMap = [(''alice'', ''s1'')], connected = {''s1''}\<rparr> ''s1'' (Some ''bob''))) ''bob'' = Some ''s1'' \<and>
   registered (fst (on_disconnect
       \<lparr>userSocketMap = [(''alice'', ''s1'')], connected = {''s1''}\<rparr> ''s1'')) ''alice'' = None \<and>
   registered (fst (on_disconnect
         (fst (on_connection (fst (on_connection
            \<lparr>userSocketMap = [(''alice'', ''s1'')], connected = {''s1''}\<rparr> ''s2'' (Some ''bob''))) ''s3'' (Some ''bob''))) ''s2'')) ''bob'' = Some ''s3'' \<and>
   set (obj_keys (userSocketMap (fst (on_disconnect
         (fst (on_connection (fst (on_connection initial_relay ''s1'' (Some ''alice''))) ''s2'' (Some ''bob''))) ''s1'')))) = {''bob''}"
proof -
  let ?st = "\<lparr>userSocketMap = [(''alice'', ''s1'')], connected = {''s1''}\<rparr>"
  have h1: "''bob'' \<noteq> [] \<and> ''bob'' \<noteq> ''undefined'' \<and> ''bob'' \<noteq> ''__proto__''" by simp
  have h2: "distinct (map snd (userSocketMap ?st))" by simp
  have h3: "registered ?st ''alice'' = Some ''s1''" by (simp add: registered_def)
  have h4: "''bob'' \<noteq> [] \<and> ''bob'' \<noteq> ''undefined'' \<and> ''bob'' \<noteq> ''__proto__'' \<and> ''s2'' \<noteq> ''s3'' \<and>
            distinct (map fst (userSocketMap ?st))" by simp
  have h5: "''alice'' \<noteq> [] \<and> ''alice'' \<noteq> ''undefined'' \<and> ''alice'' \<noteq> ''__proto__'' \<and>
            ''bob'' \<noteq> [] \<and> ''bob'' \<noteq> ''undefined'' \<and> ''bob'' \<noteq> ''__proto__'' \<and> ''s1'' \<noteq> ''s2''" by simp
  note T = presence_last_connection_wins [where u = "''bob''" and c = "''s1''" and v = "''alice''"
      and st = ?st and ?c1.0 = "''s2''" and ?c2.0 = "''s3''" and a = "''alice''" and b = "''bob''"
      and ca = "''s1''" and cb = "''s2''"]
  note c1 = T[THEN conjunct1, THEN mp, OF h1, THEN conjunct1]
  note c2 = T[THEN conjunct2, THEN conjunct2, THEN conjunct1, THEN mp, OF h2, THEN mp, OF h3]
  note c3 = T[THEN conjunct2, THEN conjunct2, THEN conjunct2, THEN conjunct1, THEN mp, OF h4]
  note c4 = T[THEN conjunct2, THEN conjunct2, THEN conjunct2, THEN conjunct2, THEN mp, OF h5,
      THEN conjunct1]
  from c1 c2 c3 c4 show ?thesis by (intro conjI)
qed

text \<open>Array-index keys come first in the broadcast list, whatever the order of connection.\<close>

lemma array_index_examples:
  "array_index ''7'' = Some 7" "array_index ''10'' = Some 10"
  "array_index ''bob'' = None" "array_index ''007'' = None"
  by (simp_all add: array_index_def is_digit_def decimal_def)

lemma obj_keys_order_example:
  "obj_keys [(''bob'', ''s1''), (''10'', ''s2''), (''7'', ''s3''), (''007'', ''s4'')]
     = [''7'', ''10'', ''bob'', ''007'']"
  by (simp add: obj_keys_def obj_entries_def array_index_examples)

section \<open>Properties of the relay\<close>

text \<open>
  A target id that is not registered but names a member of \<open>Object.prototype\<close> reads as
  that member, which is truthy: the handler does emit, into a room no socket is in, and
  nothing is delivered.
\<close>

lemma typing_to_prototype_member:
  "registered st (t_receiverId d) = None \<Longrightarrow> t_receiverId d \<in> set object_prototype_members \<Longrightarrow>
     on_typing st sock d =
       (st, [SocketTo sock (Inherited (t_receiverId d)) (Typing (t_senderId d) (t_isTyping d))]) \<and>
     deliveries conn (snd (on_typing st sock d)) = {}"
  by (simp add: on_typing_def registered_def obj_get_def deliveries_def)

lemma read_receipt_to_prototype_member:
  "registered st (r_senderId r) = None \<Longrightarrow> r_senderId r \<in> set object_prototype_members \<Longrightarrow>
     on_messageRead st sock r =
       (st, [SocketTo sock (Inherited (r_senderId r)) (MessageRead (r_messageId r) (r_readBy r))]) \<and>
     deliveries conn (snd (on_messageRead st sock r)) = {}"
  by (simp add: on_messageRead_def registered_def obj_get_def deliveries_def)

text \<open>
  C8 (as amended). A typing or read-receipt event whose target id has no entry in the
  registry (and, being a user's id, names no member of \<open>Object.prototype\<close>) emits
  nothing and leaves the whole state (registry and store) as it was. When the target is
  registered with handle \<open>h\<close>, in a registry as the handlers keep it (every registered
  handle a connected socket), the single emission carries \<open>{senderId, isTyping}\<close>,
  respectively \<open>{messageId, readBy}\<close>, is addressed to \<open>h\<close> alone and is delivered
  there, unless \<open>h\<close> is the emitting socket: \<open>socket.to\<close> never delivers to the
  emitting socket, so an event aimed at the emitter's own registration reaches nobody.
\<close>

theorem relay_typing_and_read_receipt:
  "(registered (relay a) (t_receiverId d) = None \<and>
    t_receiverId d \<notin> set object_prototype_members \<longrightarrow>
      step a (TypingEvent sock d) = (a, None, [])) \<and>
   (registered (relay a) (r_senderId r) = None \<and>
    r_senderId r \<notin> set object_prototype_members \<longrightarrow>
      step a (MessageReadEvent sock r) = (a, None, [])) \<and>
   (relay_ok (relay a) \<and> registered (relay a) (t_receiverId d) = Some h \<longrightarrow>
      step a (TypingEvent sock d)
        = (a, None, [SocketTo sock (Str h) (Typing (t_senderId d) (t_isTyping d))]) \<and>
      deliveries (connected (relay a)) (snd (snd (step a (TypingEvent sock d))))
        = (if h \<noteq> sock then {(h, Typing (t_senderId d) (t_isTyping d))} else {})) \<and>
   (relay_ok (relay a) \<and> registered (relay a) (r_senderId r) = Some h' \<longrightarrow>
      step a (MessageReadEvent sock r)
        = (a, None, [SocketTo sock (Str h') (MessageRead (r_messageId r) (r_readBy r))]) \<and>
      deliveries (connected (relay a)) (snd (snd (step a (MessageReadEvent sock r))))
        = (if h' \<noteq> sock then {(h', MessageRead (r_messageId r) (r_readBy r))} else {}))"
proof (intro conjI impI)
  assume "registered (relay a) (t_receiverId d) = None \<and>
    t_receiverId d \<notin> set object_prototype_members"
  then show "step a (TypingEvent sock d) = (a, None, [])"
    by (simp add: on_typing_def registered_def obj_get_def)
next
  assume "registered (relay a) (r_senderId r) = None \<and>
    r_senderId r \<notin> set object_prototype_members"
  then show "step a (MessageReadEvent sock r) = (a, None, [])"
    by (simp add: on_messageRead_def registered_def obj_get_def)
next
  assume h: "relay_ok (relay a) \<and> registered (relay a) (t_receiverId d) = Some h"
  then have "(t_receiverId d, h) \<in> set (userSocketMap (relay a))"
    by (simp add: registered_def map_of_SomeD)
  then have "h \<in> connected (relay a)" using h by (auto simp: relay_ok_def)
  moreover from this have "h \<noteq> []" using h by (auto simp: relay_ok_def)
  ultimately show "step a (TypingEvent sock d)
        = (a, None, [SocketTo sock (Str h) (Typing (t_senderId d) (t_isTyping d))])"
    and "deliveries (connected (relay a)) (snd (snd (step a (TypingEvent sock d))))
        = (if h \<noteq> sock then {(h, Typing (t_senderId d) (t_isTyping d))} else {})"
    using h by (auto simp: on_typing_def registered_def obj_get_def deliveries_def)
next
  assume h: "relay_ok (relay a) \<and> registered (relay a) (r_senderId r) = Some h'"
  then have "(r_senderId r, h') \<in> set (userSocketMap (relay a))"
    by (simp add: registered_def map_of_SomeD)
  then have "h' \<in> connected (relay a)" using h by (auto simp: relay_ok_def)
  moreover from this have "h' \<noteq> []" using h by (auto simp: relay_ok_def)
  ultimately show "step a (MessageReadEvent sock r)
        = (a, None, [SocketTo sock (Str h') (MessageRead (r_messageId r) (r_readBy r))])"
    and "deliveries (connected (relay a)) (snd (snd (step a (MessageReadEvent sock r))))
        = (if h' \<noteq> sock then {(h', MessageRead (r_messageId r) (r_readBy r))} else {})"
    using h by (auto simp: on_messageRead_def registered_def obj_get_def deliveries_def)
qed

theorem relay_typing_and_read_receipt_witness:
  "relay_ok \<lparr>userSocketMap = [(''alice'', ''s1'')], connected = {''s1'', ''s2''}\<rparr> \<and>
   step \<lparr>relay = \<lparr>userSocketMap = [(''alice'', ''s1'')], connected = {''s1'', ''s2''}\<rparr>, db = empty_store\<rparr>
        (TypingEvent ''s2'' \<lparr>t_senderId = ''bob'', t_receiverId = ''carol'', t_isTyping = True\<rparr>)
     = (\<lparr>relay = \<lparr>userSocketMap = [(''alice'', ''s1'')], connected = {''s1'', ''s2''}\<rparr>, db = empty_store\<rparr>, None, []) \<and>
   deliveries {''s1'', ''s2''} (snd (snd (step
        \<lparr>relay = \<lparr>userSocketMap = [(''alice'', ''s1'')], connected = {''s1'', ''s2''}\<rparr>, db = empty_store\<rparr>
        (MessageReadEvent ''s2'' \<lparr>r_senderId = ''alice'', r_messageId = ''m1'', r_readBy = ''bob''\<rparr>))))
     = {(''s1'', MessageRead ''m1'' ''bob'')}"
proof -
  let ?a = "\<lparr>relay = \<lparr>userSocketMap = [(''alice'', ''s1'')], connected = {''s1'', ''s2''}\<rparr>, db = empty_store\<rparr>"
  let ?d = "\<lparr>t_senderId = ''bob'', t_receiverId = ''carol'', t_isTyping = True\<rparr>"
  let ?r = "\<lparr>r_senderId = ''alice'', r_messageId = ''m1'', r_readBy = ''bob''\<rparr>"
  have ok: "relay_ok \<lparr>userSocketMap = [(''alice'', ''s1'')], connected = {''s1'', ''s2''}\<rparr>"
    by (simp add: relay_ok_def)
  have h1: "registered (relay ?a) (t_receiverId ?d) = None \<and>
            t_receiverId ?d \<notin> set object_prototype_members"
    by (simp add: registered_def object_prototype_members_def)
  have h2: "relay_ok (relay ?a) \<and> registered (relay ?a) (r_senderId ?r) = Some ''s1''"
    using ok by (simp add: registered_def)
  note T = relay_typing_and_read_receipt [where a = ?a and d = ?d and r = ?r
      and sock = "''s2''" and h' = "''s1''"]
  have c1: "step ?a (TypingEvent ''s2'' ?d) = (?a, None, [])"
    by (rule T[THEN conjunct1, THEN mp, OF h1])
  have c2: "deliveries (connected (relay ?a)) (snd (snd (step ?a (MessageReadEvent ''s2'' ?r))))
        = (if ''s1'' \<noteq> ''s2''
           then {(''s1'', MessageRead (r_messageId ?r) (r_readBy ?r))} else {})"
    by (rule T[THEN conjunct2, THEN conjunct2, THEN conjunct2, THEN mp, OF h2, THEN conjunct2])
  show ?thesis using ok c1 c2 by (simp del: step.simps)
qed

text \<open>
  The claim as first stated fails when the target is registered with the emitting socket
  itself: the target is registered and connected, and nothing is delivered.
\<close>

theorem relay_self_target_counterexample:
  "relay_ok \<lparr>userSocketMap = [(''alice'', ''s1'')], connected = {''s1''}\<rparr> \<and>
   registered (relay
       \<lparr>relay = \<lparr>userSocketMap = [(''alice'', ''s1'')], connected = {''s1''}\<rparr>, db = empty_store\<rparr>) ''alice''
     = Some ''s1'' \<and>
   deliveries {''s1''} (snd (snd (step
        \<lparr>relay = \<lparr>userSocketMap = [(''alice'', ''s1'')], connected = {''s1''}\<rparr>, db = empty_store\<rparr>
        (TypingEvent ''s1'' \<lparr>t_senderId = ''alice'', t_receiverId = ''alice'', t_isTyping = True\<rparr>)))) = {} \<and>
   deliveries {''s1''} (snd (snd (step
        \<lparr>relay = \<lparr>userSocketMap = [(''alice'', ''s1'')], connected = {''s1''}\<rparr>, db = empty_store\<rparr>
        (MessageReadEvent ''s1'' \<lparr>r_senderId = ''alice'', r_messageId = ''m1'', r_readBy = ''alice''\<rparr>)))) = {}"
  by (simp add: on_typing_def on_messageRead_def deliveries_def obj_get_def registered_def
        relay_ok_def)

section \<open>Lookups and population\<close>

lemma find_SomeD: "find P xs = Some x \<Longrightarrow> x \<in> set xs \<and> P x"
  by (induction xs) (auto split: if_splits)

lemma find_map_inv: "(\<And>x. P (f x) = P x) \<Longrightarrow> find P (map f xs) = map_option f (find P xs)"
  by (induction xs) auto

lemma set_map_filter: "set (List.map_filter g xs) = {y. \<exists>x \<in> set xs. g x = Some y}"
  by (induction xs) (auto split: option.splits)

lemma findOne_None:
  "Conversation_findOne s (participants_all [v, w]) = None \<longleftrightarrow>
     (\<forall>c \<in> set (conversationColl s). \<not> (v \<in> set (participants c) \<and> w \<in> set (participants c)))"
  by (auto simp: Conversation_findOne_def find_None_iff participants_all_def)

lemma findOne_Some:
  "Conversation_findOne s (participants_all [v, w]) = Some c \<Longrightarrow>
     c \<in> set (conversationColl s) \<and> v \<in> set (participants c) \<and> w \<in> set (participants c)"
  by (auto simp: Conversation_findOne_def participants_all_def dest: find_SomeD)

lemma Message_findById_id: "Message_findById s i = Some m \<Longrightarrow> msg_id m = i \<and> m \<in> set (messageColl s)"
  by (auto simp: Message_findById_def dest: find_SomeD)

lemma findById_None: "Message_findById s i = None \<longleftrightarrow> (\<forall>x \<in> set (messageColl s). msg_id x \<noteq> i)"
  by (auto simp: Message_findById_def find_None_iff)

lemma in_populate_messages:
  "x \<in> set (populate_messages s ids) \<longleftrightarrow>
     (\<exists>i \<in> set ids. \<exists>m. Message_findById s i = Some m \<and> x = populate_message s m)"
  by (auto simp: populate_messages_def set_map_filter)

lemma populate_messages_member:
  "i \<in> set ids \<Longrightarrow> Message_findById s i = Some m \<Longrightarrow>
     populate_message s m \<in> set (populate_messages s ids)"
  by (auto simp: in_populate_messages)

lemma p_id_populate [simp]: "p_id (populate_message s m) = msg_id m"
  by (simp add: populate_message_def)

lemma p_isRead_populate [simp]: "p_isRead (populate_message s m) = isRead m"
  by (simp add: populate_message_def)

lemma populate_messages_by_id:
  assumes "x \<in> set (populate_messages s ids)" "p_id x = i" "Message_findById s i = Some m"
  shows "x = populate_message s m"
proof -
  from assms(1) obtain j mj where j: "Message_findById s j = Some mj" "x = populate_message s mj"
    by (auto simp: in_populate_messages)
  then have "msg_id mj = j" by (auto dest: Message_findById_id)
  with assms(2) j have "j = i" by simp
  with j assms(3) show ?thesis by simp
qed

lemma populate_message_upd [simp]:
  "populate_message (s\<lparr>conversationColl := cs\<rparr>) m = populate_message s m"
  "populate_message (s\<lparr>messageColl := ms\<rparr>) m = populate_message s m"
  "populate_message (s\<lparr>nextId := n\<rparr>) m = populate_message s m"
  by (simp_all add: populate_message_def populate_user_def)

lemma findById_updateMany:
  "Message_findById (Message_updateMany_isRead s q) i =
     map_option (\<lambda>m. if q m then m\<lparr>isRead := True\<rparr> else m) (Message_findById s i)"
proof -
  have "find (\<lambda>m. msg_id m = i) (map (\<lambda>m. if q m then m\<lparr>isRead := True\<rparr> else m) (messageColl s))
        = map_option (\<lambda>m. if q m then m\<lparr>isRead := True\<rparr> else m) (find (\<lambda>m. msg_id m = i) (messageColl s))"
    by (rule find_map_inv) simp
  then show ?thesis by (simp add: Message_findById_def Message_updateMany_isRead_def)
qed

lemma findOne_updateMany [simp]:
  "Conversation_findOne (Message_updateMany_isRead s q) P = Conversation_findOne s P"
  by (simp add: Conversation_findOne_def Message_updateMany_isRead_def)

lemma get_messages_Some:
  "Conversation_findOne s (participants_all [v, w]) = Some c \<Longrightarrow>
   get_messages s v w =
     (Response 200 (Messages (populate_messages s (messages c))),
      Message_updateMany_isRead s (\<lambda>m. conversationId m = conv_id c \<and> senderId m = w \<and>
                                        receiverId m = v \<and> isRead m = False))"
  by (simp add: get_messages_def)

lemma example_store_reached:
  "snd (run initial_relay empty_store
      [Send 10 ''alice'' ''bob'' (Some ''hi''), Send 20 ''bob'' ''alice'' (Some '' yo '')])
   = example_store"
  by code_simp

section \<open>Validation of a send\<close>

lemma trim_Nil: "trim [] = []" by (simp add: trim_def)

text \<open>
  C5. A send answers 400 exactly when the body's \<open>message\<close> is absent or trims to the
  empty string; it then returns the store it was given (no message, no conversation is
  created or changed) and emits nothing. Every other send answers 201.
\<close>

theorem send_validation:
  "(status (fst (send_message rs s now u v msg)) = 400
      \<longleftrightarrow> (case msg of None \<Rightarrow> True | Some t \<Rightarrow> trim t = [])) \<and>
   ((case msg of None \<Rightarrow> True | Some t \<Rightarrow> trim t = []) \<longrightarrow>
      send_message rs s now u v msg = (Response 400 (Error ''Message content is required''), s, [])) \<and>
   (\<not> (case msg of None \<Rightarrow> True | Some t \<Rightarrow> trim t = []) \<longrightarrow>
      status (fst (send_message rs s now u v msg)) = 201)"
proof (cases "case msg of None \<Rightarrow> True | Some t \<Rightarrow> trim t = []")
  case True
  then have "\<not> truthy msg \<or> trim (the msg) = []" by (cases msg) (auto simp: truthy_def)
  then have "send_message rs s now u v msg = (Response 400 (Error ''Message content is required''), s, [])"
    unfolding send_message_def by (simp only: if_True)
  with True show ?thesis by simp
next
  case False
  then have "\<not> (\<not> truthy msg \<or> trim (the msg) = [])"
    by (cases msg) (auto simp: truthy_def trim_Nil)
  then have "status (fst (send_message rs s now u v msg)) = 201"
    unfolding send_message_def by (simp add: Let_def split: prod.splits option.splits)
  with False show ?thesis by simp
qed

theorem send_validation_witness:
  "send_message initial_relay example_store 30 ''alice'' ''bob'' (Some ''  '')
     = (Response 400 (Error ''Message content is required''), example_store, []) \<and>
   send_message initial_relay example_store 30 ''alice'' ''bob'' None
     = (Response 400 (Error ''Message content is required''), example_store, []) \<and>
   status (fst (send_message initial_relay example_store 30 ''alice'' ''bob'' (Some ''hello''))) = 201"
proof -
  have h1: "case Some ''  '' of None \<Rightarrow> True | Some t \<Rightarrow> trim t = []" by code_simp
  have h2: "case (None :: string option) of None \<Rightarrow> True | Some t \<Rightarrow> trim t = []" by simp
  have h3: "\<not> (case Some ''hello'' of None \<Rightarrow> True | Some t \<Rightarrow> trim t = [])" by code_simp
  note c1 = send_validation [where msg = "Some ''  ''" and rs = initial_relay and s = example_store
      and now = 30 and u = "''alice''" and v = "''bob''", THEN conjunct2, THEN conjunct1, THEN mp, OF h1]
  note c2 = send_validation [where msg = None and rs = initial_relay and s = example_store
      and now = 30 and u = "''alice''" and v = "''bob''", THEN conjunct2, THEN conjunct1, THEN mp, OF h2]
  note c3 = send_validation [where msg = "Some ''hello''" and rs = initial_relay and s = example_store
      and now = 30 and u = "''alice''" and v = "''bob''", THEN conjunct2, THEN conjunct2, THEN mp, OF h3]
  from c1 c2 c3 show ?thesis by blast
qed

section \<open>Read marking\<close>

lemma updateMany_twice:
  "(\<And>m. q m \<Longrightarrow> \<not> isRead m) \<Longrightarrow>
   Message_updateMany_isRead (Message_updateMany_isRead s q) q = Message_updateMany_isRead s q"
  by (auto simp: Message_updateMany_isRead_def)

text \<open>
  C7. Marking a conversation read for a receiver a second time changes nothing: the
  second call returns the state and response of the first. One call leaves conversations,
  users and the id counter alone and, position by position, turns exactly the unread
  messages of conversation \<open>c\<close> addressed to \<open>r\<close> into read ones.
\<close>

theorem mark_read_idempotent:
  "mark_read (snd (mark_read s r c)) r c = mark_read s r c \<and>
   status (fst (mark_read s r c)) = 200 \<and>
   conversationColl (snd (mark_read s r c)) = conversationColl s \<and>
   userColl (snd (mark_read s r c)) = userColl s \<and>
   nextId (snd (mark_read s r c)) = nextId s \<and>
   length (messageColl (snd (mark_read s r c))) = length (messageColl s) \<and>
   (\<forall>k < length (messageColl s).
      messageColl (snd (mark_read s r c)) ! k =
        (if conversationId (messageColl s ! k) = c \<and> receiverId (messageColl s ! k) = r \<and>
            \<not> isRead (messageColl s ! k)
         then (messageColl s ! k)\<lparr>isRead := True\<rparr> else messageColl s ! k))"
proof -
  let ?q = "\<lambda>m. conversationId m = c \<and> receiverId m = r \<and> isRead m = False"
  have "Message_updateMany_isRead (Message_updateMany_isRead s ?q) ?q = Message_updateMany_isRead s ?q"
    by (rule updateMany_twice) simp
  then have "mark_read (snd (mark_read s r c)) r c = mark_read s r c"
    by (simp add: mark_read_def)
  then show ?thesis
    by (simp add: mark_read_def Message_updateMany_isRead_def)
qed

theorem mark_read_idempotent_witness:
  "mark_read (snd (mark_read example_store ''bob'' 0)) ''bob'' 0 = mark_read example_store ''bob'' 0 \<and>
   messageColl (snd (mark_read example_store ''bob'' 0)) ! 0 = example_hi\<lparr>isRead := True\<rparr> \<and>
   messageColl (snd (mark_read example_store ''bob'' 0)) ! 1 = example_yo"
proof -
  note T = mark_read_idempotent [where s = example_store and r = "''bob''" and c = 0]
  note c1 = T[THEN conjunct1]
  have q: "\<forall>k < length (messageColl example_store).
      messageColl (snd (mark_read example_store ''bob'' 0)) ! k =
        (if conversationId (messageColl example_store ! k) = 0 \<and>
            receiverId (messageColl example_store ! k) = ''bob'' \<and>
            \<not> isRead (messageColl example_store ! k)
         then (messageColl example_store ! k)\<lparr>isRead := True\<rparr> else messageColl example_store ! k)"
    using T by blast
  have l0: "0 < length (messageColl example_store)" and l1: "1 < length (messageColl example_store)"
    by (simp_all add: example_store_def)
  have e0: "(if conversationId (messageColl example_store ! 0) = 0 \<and>
            receiverId (messageColl example_store ! 0) = ''bob'' \<and>
            \<not> isRead (messageColl example_store ! 0)
         then (messageColl example_store ! 0)\<lparr>isRead := True\<rparr> else messageColl example_store ! 0)
        = example_hi\<lparr>isRead := True\<rparr>"
    by (simp add: example_store_def example_hi_def)
  have e1: "(if conversationId (messageColl example_store ! 1) = 0 \<and>
            receiverId (messageColl example_store ! 1) = ''bob'' \<and>
            \<not> isRead (messageColl example_store ! 1)
         then (messageColl example_store ! 1)\<lparr>isRead := True\<rparr> else messageColl example_store ! 1)
        = example_yo"
    by (simp add: example_store_def example_yo_def)
  from q[THEN spec, of 0, THEN mp, OF l0] e0
  have c2: "messageColl (snd (mark_read example_store ''bob'' 0)) ! 0 = example_hi\<lparr>isRead := True\<rparr>"
    by (rule trans)
  from q[THEN spec, of 1, THEN mp, OF l1] e1
  have c3: "messageColl (snd (mark_read example_store ''bob'' 0)) ! 1 = example_yo"
    by (rule trans)
  from c1 c2 c3 show ?thesis by blast
qed

text \<open>
  C4. When no stored conversation lists both the viewer \<open>v\<close> and the other user \<open>w\<close>,
  the fetch answers 200 with the empty sequence and leaves the store alone. Otherwise the
  lookup finds a conversation \<open>c\<close> listing both, the answer is 200, and in the store
  exactly the messages with \<open>conversationId = c\<close>, \<open>senderId = w\<close>,
  \<open>receiverId = v\<close> and \<open>isRead = false\<close> become read; nothing else changes.
\<close>

theorem fetch_thread_marks_read:
  "((\<forall>c \<in> set (conversationColl s). \<not> (v \<in> set (participants c) \<and> w \<in> set (participants c))) \<longrightarrow>
      get_messages s v w = (Response 200 (Messages []), s)) \<and>
   ((\<exists>c \<in> set (conversationColl s). v \<in> set (participants c) \<and> w \<in> set (participants c)) \<longrightarrow>
      (\<exists>c. Conversation_findOne s (participants_all [v, w]) = Some c)) \<and>
   (Conversation_findOne s (participants_all [v, w]) = Some c \<longrightarrow>
      c \<in> set (conversationColl s) \<and> v \<in> set (participants c) \<and> w \<in> set (participants c) \<and>
      status (fst (get_messages s v w)) = 200 \<and>
      conversationColl (snd (get_messages s v w)) = conversationColl s \<and>
      userColl (snd (get_messages s v w)) = userColl s \<and>
      nextId (snd (get_messages s v w)) = nextId s \<and>
      length (messageColl (snd (get_messages s v w))) = length (messageColl s) \<and>
      (\<forall>k < length (messageColl s).
         messageColl (snd (get_messages s v w)) ! k =
           (if conversationId (messageColl s ! k) = conv_id c \<and> senderId (messageColl s ! k) = w \<and>
               receiverId (messageColl s ! k) = v \<and> \<not> isRead (messageColl s ! k)
            then (messageColl s ! k)\<lparr>isRead := True\<rparr> else messageColl s ! k)))"
proof (intro conjI impI)
  assume "\<forall>c \<in> set (conversationColl s). \<not> (v \<in> set (participants c) \<and> w \<in> set (participants c))"
  then have "Conversation_findOne s (participants_all [v, w]) = None"
    by (simp add: findOne_None)
  then show "get_messages s v w = (Response 200 (Messages []), s)"
    by (simp add: get_messages_def)
next
  assume "\<exists>c \<in> set (conversationColl s). v \<in> set (participants c) \<and> w \<in> set (participants c)"
  then have "Conversation_findOne s (participants_all [v, w]) \<noteq> None"
    by (simp add: findOne_None)
  then show "\<exists>c. Conversation_findOne s (participants_all [v, w]) = Some c" by auto
next
  assume f: "Conversation_findOne s (participants_all [v, w]) = Some c"
  from findOne_Some[OF f] show "c \<in> set (conversationColl s)" "v \<in> set (participants c)"
    "w \<in> set (participants c)" by simp_all
  show "status (fst (get_messages s v w)) = 200"
    "conversationColl (snd (get_messages s v w)) = conversationColl s"
    "userColl (snd (get_messages s v w)) = userColl s"
    "nextId (snd (get_messages s v w)) = nextId s"
    "length (messageColl (snd (get_messages s v w))) = length (messageColl s)"
    by (simp_all add: get_messages_Some[OF f] Message_updateMany_isRead_def)
  show "\<forall>k < length (messageColl s).
         messageColl (snd (get_messages s v w)) ! k =
           (if conversationId (messageColl s ! k) = conv_id c \<and> senderId (messageColl s ! k) = w \<and>
               receiverId (messageColl s ! k) = v \<and> \<not> isRead (messageColl s ! k)
            then (messageColl s ! k)\<lparr>isRead := True\<rparr> else messageColl s ! k)"
    by (simp add: get_messages_Some[OF f] Message_updateMany_isRead_def)
qed

theorem fetch_thread_marks_read_witness:
  "get_messages example_store ''alice'' ''carol'' = (Response 200 (Messages []), example_store) \<and>
   Conversation_findOne example_store (participants_all [''bob'', ''alice'']) = Some example_conversation \<and>
   status (fst (get_messages example_store ''bob'' ''alice'')) = 200 \<and>
   conversationColl (snd (get_messages example_store ''bob'' ''alice'')) = conversationColl example_store \<and>
   messageColl (snd (get_messages example_store ''bob'' ''alice'')) ! 0 = example_hi\<lparr>isRead := True\<rparr> \<and>
   messageColl (snd (get_messages example_store ''bob'' ''alice'')) ! 1 = example_yo"
proof -
  have h1: "\<forall>c \<in> set (conversationColl example_store).
      \<not> (''alice'' \<in> set (participants c) \<and> ''carol'' \<in> set (participants c))" by code_simp
  have h2: "Conversation_findOne example_store (participants_all [''bob'', ''alice'']) = Some example_conversation"
    by code_simp
  note c1 = fetch_thread_marks_read [where s = example_store and v = "''alice''" and w = "''carol''",
      THEN conjunct1, THEN mp, OF h1]
  note T = fetch_thread_marks_read [where s = example_store and v = "''bob''" and w = "''alice''"
      and c = example_conversation, THEN conjunct2, THEN conjunct2, THEN mp, OF h2]
  have c3: "status (fst (get_messages example_store ''bob'' ''alice'')) = 200"
    and c4: "conversationColl (snd (get_messages example_store ''bob'' ''alice'')) = conversationColl example_store"
    and q: "\<forall>k < length (messageColl example_store).
         messageColl (snd (get_messages example_store ''bob'' ''alice'')) ! k =
           (if conversationId (messageColl example_store ! k) = conv_id example_conversation \<and>
               senderId (messageColl example_store ! k) = ''alice'' \<and>
               receiverId (messageColl example_store ! k) = ''bob'' \<and> \<not> isRead (messageColl example_store ! k)
            then (messageColl example_store ! k)\<lparr>isRead := True\<rparr> else messageColl example_store ! k)"
    using T by blast+
  have l0: "0 < length (messageColl example_store)" and l1: "1 < length (messageColl example_store)"
    by (simp_all add: example_store_def)
  have e0: "(if conversationId (messageColl example_store ! 0) = conv_id example_conversation \<and>
               senderId (messageColl example_store ! 0) = ''alice'' \<and>
               receiverId (messageColl example_store ! 0) = ''bob'' \<and> \<not> isRead (messageColl example_store ! 0)
            then (messageColl example_store ! 0)\<lparr>isRead := True\<rparr> else messageColl example_store ! 0)
        = example_hi\<lparr>isRead := True\<rparr>"
    by (simp add: example_store_def example_hi_def example_conversation_def)
  have e1: "(if conversationId (messageColl example_store ! 1) = conv_id example_conversation \<and>
               senderId (messageColl example_store ! 1) = ''alice'' \<and>
               receiverId (messageColl example_store ! 1) = ''bob'' \<and> \<not> isRead (messageColl example_store ! 1)
            then (messageColl example_store ! 1)\<lparr>isRead := True\<rparr> else messageColl example_store ! 1)
        = example_yo"
    by (simp add: example_store_def example_yo_def example_conversation_def)
  from q[THEN spec, of 0, THEN mp, OF l0] e0
  have c5: "messageColl (snd (get_messages example_store ''bob'' ''alice'')) ! 0 = example_hi\<lparr>isRead := True\<rparr>"
    by (rule trans)
  from q[THEN spec, of 1, THEN mp, OF l1] e1
  have c6: "messageColl (snd (get_messages example_store ''bob'' ''alice'')) ! 1 = example_yo"
    by (rule trans)
  from c1 h2 c3 c4 c5 c6 show ?thesis by blast
qed

text \<open>
  C9. The thread a fetch returns is populated from the store as it was before the fetch
  marked anything: every returned object carries the \<open>isRead\<close> of its stored document at
  the start of the fetch. A listed message of the conversation from \<open>w\<close> to \<open>v\<close> that
  was unread is returned with \<open>isRead = false\<close> by the very fetch that marks it read in
  the store, and with \<open>isRead = true\<close> by the fetch after it.
\<close>

theorem fetch_returns_flags_before_marking:
  "Conversation_findOne s (participants_all [v, w]) = Some c \<longrightarrow>
     json (fst (get_messages s v w)) = Messages (populate_messages s (messages c)) \<and>
     (\<forall>x \<in> set (body_messages (json (fst (get_messages s v w)))).
         \<exists>m. Message_findById s (p_id x) = Some m \<and> p_isRead x = isRead m) \<and>
     (\<forall>i m. i \<in> set (messages c) \<and> Message_findById s i = Some m \<and>
            conversationId m = conv_id c \<and> senderId m = w \<and> receiverId m = v \<and> \<not> isRead m \<longrightarrow>
         (\<exists>x \<in> set (body_messages (json (fst (get_messages s v w)))). p_id x = i) \<and>
         (\<forall>x \<in> set (body_messages (json (fst (get_messages s v w)))). p_id x = i \<longrightarrow> \<not> p_isRead x) \<and>
         (\<exists>m'. Message_findById (snd (get_messages s v w)) i = Some m' \<and> isRead m') \<and>
         (\<exists>x \<in> set (body_messages (json (fst (get_messages (snd (get_messages s v w)) v w)))). p_id x = i) \<and>
         (\<forall>x \<in> set (body_messages (json (fst (get_messages (snd (get_messages s v w)) v w)))).
             p_id x = i \<longrightarrow> p_isRead x))"
proof
  assume f: "Conversation_findOne s (participants_all [v, w]) = Some c"
  let ?q = "\<lambda>m. conversationId m = conv_id c \<and> senderId m = w \<and> receiverId m = v \<and> isRead m = False"
  let ?s' = "Message_updateMany_isRead s ?q"
  have g1: "get_messages s v w = (Response 200 (Messages (populate_messages s (messages c))), ?s')"
    by (rule get_messages_Some[OF f])
  have f': "Conversation_findOne ?s' (participants_all [v, w]) = Some c" using f by simp
  have g2: "get_messages ?s' v w =
      (Response 200 (Messages (populate_messages ?s' (messages c))),
       Message_updateMany_isRead ?s' ?q)"
    by (rule get_messages_Some[OF f'])
  have a: "\<forall>x \<in> set (populate_messages s (messages c)).
         \<exists>m. Message_findById s (p_id x) = Some m \<and> p_isRead x = isRead m"
  proof
    fix x assume "x \<in> set (populate_messages s (messages c))"
    then obtain j mj where j: "Message_findById s j = Some mj" "x = populate_message s mj"
      by (auto simp: in_populate_messages)
    then have "msg_id mj = j" by (auto dest: Message_findById_id)
    with j show "\<exists>m. Message_findById s (p_id x) = Some m \<and> p_isRead x = isRead m" by simp
  qed
  have b: "\<forall>i m. i \<in> set (messages c) \<and> Message_findById s i = Some m \<and> ?q m \<longrightarrow>
         (\<exists>x \<in> set (populate_messages s (messages c)). p_id x = i) \<and>
         (\<forall>x \<in> set (populate_messages s (messages c)). p_id x = i \<longrightarrow> \<not> p_isRead x) \<and>
         (\<exists>m'. Message_findById ?s' i = Some m' \<and> isRead m') \<and>
         (\<exists>x \<in> set (populate_messages ?s' (messages c)). p_id x = i) \<and>
         (\<forall>x \<in> set (populate_messages ?s' (messages c)). p_id x = i \<longrightarrow> p_isRead x)"
  proof (intro allI impI)
    fix i m
    assume h: "i \<in> set (messages c) \<and> Message_findById s i = Some m \<and> ?q m"
    then have id: "msg_id m = i" by (auto dest: Message_findById_id)
    have m': "Message_findById ?s' i = Some (m\<lparr>isRead := True\<rparr>)"
      using h by (simp add: findById_updateMany)
    have "populate_message s m \<in> set (populate_messages s (messages c))"
      using h by (intro populate_messages_member[of i]) simp_all
    then have 1: "\<exists>x \<in> set (populate_messages s (messages c)). p_id x = i"
      using id by (intro bexI[of _ "populate_message s m"]) simp_all
    have 2: "\<forall>x \<in> set (populate_messages s (messages c)). p_id x = i \<longrightarrow> \<not> p_isRead x"
    proof (intro ballI impI)
      fix x assume "x \<in> set (populate_messages s (messages c))" "p_id x = i"
      then have "x = populate_message s m" using h by (intro populate_messages_by_id[of x s _ i]) simp_all
      then show "\<not> p_isRead x" using h by simp
    qed
    have 3: "\<exists>m'. Message_findById ?s' i = Some m' \<and> isRead m'" using m' by simp
    have "populate_message ?s' (m\<lparr>isRead := True\<rparr>) \<in> set (populate_messages ?s' (messages c))"
      using h m' by (intro populate_messages_member[of i]) simp_all
    then have 4: "\<exists>x \<in> set (populate_messages ?s' (messages c)). p_id x = i"
      using id by (intro bexI[of _ "populate_message ?s' (m\<lparr>isRead := True\<rparr>)"]) simp_all
    have 5: "\<forall>x \<in> set (populate_messages ?s' (messages c)). p_id x = i \<longrightarrow> p_isRead x"
    proof (intro ballI impI)
      fix x assume "x \<in> set (populate_messages ?s' (messages c))" "p_id x = i"
      then have "x = populate_message ?s' (m\<lparr>isRead := True\<rparr>)"
        using m' by (intro populate_messages_by_id[of x ?s' _ i]) simp_all
      then show "p_isRead x" by simp
    qed
    from 1 2 3 4 5 show "(\<exists>x \<in> set (populate_messages s (messages c)). p_id x = i) \<and>
         (\<forall>x \<in> set (populate_messages s (messages c)). p_id x = i \<longrightarrow> \<not> p_isRead x) \<and>
         (\<exists>m'. Message_findById ?s' i = Some m' \<and> isRead m') \<and>
         (\<exists>x \<in> set (populate_messages ?s' (messages c)). p_id x = i) \<and>
         (\<forall>x \<in> set (populate_messages ?s' (messages c)). p_id x = i \<longrightarrow> p_isRead x)"
      by blast
  qed
  show "json (fst (get_messages s v w)) = Messages (populate_messages s (messages c)) \<and>
     (\<forall>x \<in> set (body_messages (json (fst (get_messages s v w)))).
         \<exists>m. Message_findById s (p_id x) = Some m \<and> p_isRead x = isRead m) \<and>
     (\<forall>i m. i \<in> set (messages c) \<and> Message_findById s i = Some m \<and>
            conversationId m = conv_id c \<and> senderId m = w \<and> receiverId m = v \<and> \<not> isRead m \<longrightarrow>
         (\<exists>x \<in> set (body_messages (json (fst (get_messages s v w)))). p_id x = i) \<and>
         (\<forall>x \<in> set (body_messages (json (fst (get_messages s v w)))). p_id x = i \<longrightarrow> \<not> p_isRead x) \<and>
         (\<exists>m'. Message_findById (snd (get_messages s v w)) i = Some m' \<and> isRead m') \<and>
         (\<exists>x \<in> set (body_messages (json (fst (get_messages (snd (get_messages s v w)) v w)))). p_id x = i) \<and>
         (\<forall>x \<in> set (body_messages (json (fst (get_messages (snd (get_messages s v w)) v w)))).
             p_id x = i \<longrightarrow> p_isRead x))"
    unfolding g1 fst_conv snd_conv g2 response.sel body_messages.simps
    using a b by simp
qed

theorem fetch_returns_flags_before_marking_witness:
  "Conversation_findOne example_store (participants_all [''bob'', ''alice'']) = Some example_conversation \<and>
   json (fst (get_messages example_store ''bob'' ''alice''))
     = Messages (populate_messages example_store (messages example_conversation)) \<and>
   (\<exists>m'. Message_findById (snd (get_messages example_store ''bob'' ''alice'')) 1 = Some m' \<and> isRead m') \<and>
   map p_id (body_messages (json (fst (get_messages example_store ''bob'' ''alice'')))) = [1, 2] \<and>
   map p_isRead (body_messages (json (fst (get_messages example_store ''bob'' ''alice'')))) = [False, False] \<and>
   map p_isRead (body_messages (json (fst (get_messages
       (snd (get_messages example_store ''bob'' ''alice'')) ''bob'' ''alice'')))) = [True, False]"
proof -
  have h: "Conversation_findOne example_store (participants_all [''bob'', ''alice'']) = Some example_conversation"
    by code_simp
  have g: "1 \<in> set (messages example_conversation) \<and> Message_findById example_store 1 = Some example_hi \<and>
      conversationId example_hi = conv_id example_conversation \<and> senderId example_hi = ''alice'' \<and>
      receiverId example_hi = ''bob'' \<and> \<not> isRead example_hi"
    by code_simp
  note T = fetch_returns_flags_before_marking [where s = example_store and v = "''bob''"
      and w = "''alice''" and c = example_conversation, THEN mp, OF h]
  note c1 = T[THEN conjunct1]
  note U = T[THEN conjunct2, THEN conjunct2, THEN spec, of 1, THEN spec, of example_hi, THEN mp, OF g]
  note c2 = U[THEN conjunct2, THEN conjunct2, THEN conjunct1]
  have e1: "map p_id (body_messages (json (fst (get_messages example_store ''bob'' ''alice'')))) = [1, 2]"
    by code_simp
  have e2: "map p_isRead (body_messages (json (fst (get_messages example_store ''bob'' ''alice'')))) = [False, False]"
    by code_simp
  have e3: "map p_isRead (body_messages (json (fst (get_messages
       (snd (get_messages example_store ''bob'' ''alice'')) ''bob'' ''alice'')))) = [True, False]"
    by code_simp
  from h c1 c2 e1 e2 e3 show ?thesis by blast
qed

section \<open>What a send does to the store\<close>

lemma send_message_existing:
  assumes "truthy msg" "trim (the msg) \<noteq> []"
    and "Conversation_findOne s (participants_all [u, v]) = Some c"
  shows "\<exists>es. send_message rs s now u v msg =
     (Response 201 (PopulatedMessage (populate_message s
          \<lparr>msg_id = nextId s, senderId = u, receiverId = v, message = trim (the msg),
            conversationId = conv_id c, isRead = False, messageType = TextMessage\<rparr>)),
      s\<lparr>nextId := Suc (nextId s),
         messageColl := messageColl s @
                 [\<lparr>msg_id = nextId s, senderId = u, receiverId = v, message = trim (the msg),
                   conversationId = conv_id c, isRead = False, messageType = TextMessage\<rparr>],
         conversationColl := replace_conv (conversationColl s)
                 (c\<lparr>messages := messages c @ [nextId s], lastMessage := Some (nextId s),
                    lastMessageTime := now\<rparr>)\<rparr>,
      es)"
  using assms
  by (simp add: send_message_def new_Message_def Message_save_def Conversation_save_def Let_def)

lemma send_message_fresh:
  assumes "truthy msg" "trim (the msg) \<noteq> []"
    and "Conversation_findOne s (participants_all [u, v]) = None"
  shows "\<exists>es. send_message rs s now u v msg =
     (Response 201 (PopulatedMessage (populate_message s
          \<lparr>msg_id = Suc (nextId s), senderId = u, receiverId = v, message = trim (the msg),
            conversationId = nextId s, isRead = False, messageType = TextMessage\<rparr>)),
      s\<lparr>nextId := Suc (Suc (nextId s)),
         messageColl := messageColl s @
                 [\<lparr>msg_id = Suc (nextId s), senderId = u, receiverId = v, message = trim (the msg),
                   conversationId = nextId s, isRead = False, messageType = TextMessage\<rparr>],
         conversationColl := replace_conv (conversationColl s @
                 [\<lparr>conv_id = nextId s, participants = [u, v], messages = [], lastMessage = None,
                   lastMessageTime = now, isGroup = False, groupName = None, groupAdmin = None\<rparr>])
                 \<lparr>conv_id = nextId s, participants = [u, v], messages = [Suc (nextId s)],
                   lastMessage = Some (Suc (nextId s)),
                   lastMessageTime = now, isGroup = False, groupName = None, groupAdmin = None\<rparr>\<rparr>,
      es)"
  using assms
  by (simp add: send_message_def new_Message_def Message_save_def Conversation_save_def
        Conversation_create_def Let_def)

lemma replace_conv_append_fresh:
  "\<forall>d \<in> set cs. conv_id d \<noteq> conv_id c' \<Longrightarrow> conv_id c0 = conv_id c' \<Longrightarrow>
     replace_conv (cs @ [c0]) c' = cs @ [c']"
  by (induction cs) auto

lemma map_conv_id_replace:
  "map conv_id (replace_conv cs c) = map conv_id cs"
  by (induction cs) auto

lemma set_replace_conv:
  "set (replace_conv cs c) \<subseteq> insert c (set cs)"
  by (induction cs) auto

lemma find_replace_conv:
  "distinct (map conv_id cs) \<Longrightarrow> find P cs = Some c \<Longrightarrow> P c' \<Longrightarrow> conv_id c' = conv_id c \<Longrightarrow>
     find P (replace_conv cs c') = Some c'"
proof (induction cs)
  case Nil then show ?case by simp
next
  case (Cons d ds)
  show ?case
  proof (cases "P d")
    case True
    with Cons.prems have "d = c" by simp
    with Cons.prems True show ?thesis by simp
  next
    case False
    with Cons.prems have f: "find P ds = Some c" by simp
    then have "c \<in> set ds" by (auto dest: find_SomeD)
    with Cons.prems have "conv_id d \<noteq> conv_id c'" by (auto simp: image_iff)
    with Cons False f show ?thesis by simp
  qed
qed

lemma find_by_id_member:
  "distinct (map conv_id cs) \<Longrightarrow> c \<in> set cs \<Longrightarrow> find (\<lambda>d. conv_id d = conv_id c) cs = Some c"
  by (induction cs) (auto simp: image_iff)

lemma delete_msg_filter:
  "distinct (map msg_id ms) \<Longrightarrow> delete_msg ms i = filter (\<lambda>m. msg_id m \<noteq> i) ms"
proof (induction ms)
  case Nil then show ?case by simp
next
  case (Cons m ms)
  then have "msg_id m = i \<Longrightarrow> filter (\<lambda>x. msg_id x \<noteq> i) ms = ms"
    by (intro filter_True) (auto simp: image_iff)
  with Cons show ?case by auto
qed

lemma set_delete_msg: "set (delete_msg ms i) \<subseteq> set ms"
  by (induction ms) auto

lemma distinct_delete_msg: "distinct (map msg_id ms) \<Longrightarrow> distinct (map msg_id (delete_msg ms i))"
  by (simp add: delete_msg_filter distinct_map_filter)

lemma length_pull_message [simp]: "length (pull_message cs i mid) = length cs"
  by (induction cs) auto

lemma pull_message_frame:
  "map conv_id (pull_message cs i mid) = map conv_id cs"
  "map participants (pull_message cs i mid) = map participants cs"
  "map lastMessage (pull_message cs i mid) = map lastMessage cs"
  "map lastMessageTime (pull_message cs i mid) = map lastMessageTime cs"
  "map isGroup (pull_message cs i mid) = map isGroup cs"
  "map groupName (pull_message cs i mid) = map groupName cs"
  "map groupAdmin (pull_message cs i mid) = map groupAdmin cs"
  by (induction cs) auto

lemma findById_pull_message:
  "find (\<lambda>d. conv_id d = j) (pull_message cs i mid) =
     (if j = i then map_option (\<lambda>d. d\<lparr>messages := removeAll mid (messages d)\<rparr>)
                      (find (\<lambda>d. conv_id d = j) cs)
      else find (\<lambda>d. conv_id d = j) cs)"
  by (induction cs) auto

lemma set_pull_message:
  "d' \<in> set (pull_message cs i mid) \<Longrightarrow>
     \<exists>d \<in> set cs. conv_id d' = conv_id d \<and> set (messages d') \<subseteq> set (messages d)"
proof (induction cs)
  case Nil then show ?case by simp
next
  case (Cons c cs)
  show ?case
  proof (cases "conv_id c = i")
    case True
    with Cons.prems have "d' = c\<lparr>messages := removeAll mid (messages c)\<rparr> \<or> d' \<in> set cs" by simp
    then show ?thesis
    proof
      assume "d' = c\<lparr>messages := removeAll mid (messages c)\<rparr>"
      then have "conv_id d' = conv_id c \<and> set (messages d') \<subseteq> set (messages c)" by auto
      then show ?thesis by (intro bexI[of _ c]) simp_all
    next
      assume "d' \<in> set cs"
      then show ?thesis by (intro bexI[of _ d']) simp_all
    qed
  next
    case False
    with Cons.prems have "d' = c \<or> d' \<in> set (pull_message cs i mid)" by simp
    then show ?thesis
    proof
      assume "d' = c" then show ?thesis by simp
    next
      assume "d' \<in> set (pull_message cs i mid)"
      from Cons.IH[OF this] show ?thesis by auto
    qed
  qed
qed

section \<open>Well-formedness is kept by every request\<close>

lemma store_ok_iff:
  "store_ok s \<longleftrightarrow>
     distinct (map msg_id (messageColl s)) \<and> distinct (map conv_id (conversationColl s)) \<and>
     (\<forall>m \<in> set (messageColl s). msg_id m < nextId s) \<and>
     (\<forall>c \<in> set (conversationColl s). conv_id c < nextId s \<and> (\<forall>i \<in> set (messages c). i < nextId s))"
  by (simp add: store_ok_def list_all_iff)

lemma msg_id_mark: "msg_id \<circ> (\<lambda>m. if q m then m\<lparr>isRead := True\<rparr> else m) = msg_id"
  by (rule ext) simp

lemma store_ok_updateMany: "store_ok s \<Longrightarrow> store_ok (Message_updateMany_isRead s q)"
  by (auto simp: store_ok_iff Message_updateMany_isRead_def msg_id_mark)

lemma store_ok_delete:
  assumes "store_ok s"
  shows "store_ok (Conversation_findByIdAndUpdate_pull (Message_findByIdAndDelete s i) j i)"
proof -
  let ?s' = "Conversation_findByIdAndUpdate_pull (Message_findByIdAndDelete s i) j i"
  have m: "messageColl ?s' = delete_msg (messageColl s) i"
    and c: "conversationColl ?s' = pull_message (conversationColl s) j i"
    and n: "nextId ?s' = nextId s"
    by (simp_all add: Conversation_findByIdAndUpdate_pull_def Message_findByIdAndDelete_def)
  have 1: "distinct (map msg_id (messageColl ?s'))"
    using assms by (simp add: m store_ok_iff distinct_delete_msg)
  have 2: "distinct (map conv_id (conversationColl ?s'))"
    using assms by (simp add: c store_ok_iff pull_message_frame)
  have 3: "\<forall>x \<in> set (messageColl ?s'). msg_id x < nextId ?s'"
    using assms set_delete_msg[of "messageColl s" i] by (auto simp: m n store_ok_iff)
  have 4: "\<forall>d \<in> set (conversationColl ?s'). conv_id d < nextId ?s' \<and> (\<forall>k \<in> set (messages d). k < nextId ?s')"
  proof
    fix d assume "d \<in> set (conversationColl ?s')"
    then obtain d0 where "d0 \<in> set (conversationColl s)" "conv_id d = conv_id d0"
      "set (messages d) \<subseteq> set (messages d0)"
      using set_pull_message[of d "conversationColl s" j i] by (auto simp: c)
    then show "conv_id d < nextId ?s' \<and> (\<forall>k \<in> set (messages d). k < nextId ?s')"
      using assms by (auto simp: n store_ok_iff)
  qed
  from 1 2 3 4 show ?thesis by (simp add: store_ok_iff)
qed

lemma store_ok_send_existing:
  assumes ok: "store_ok s" and f: "Conversation_findOne s (participants_all [u, v]) = Some c"
  shows "store_ok (s\<lparr>nextId := Suc (nextId s),
         messageColl := messageColl s @ [\<lparr>msg_id = nextId s, senderId = u, receiverId = v, message = t,
                   conversationId = conv_id c, isRead = False, messageType = TextMessage\<rparr>],
         conversationColl := replace_conv (conversationColl s)
                 (c\<lparr>messages := messages c @ [nextId s], lastMessage := Some (nextId s),
                    lastMessageTime := now\<rparr>)\<rparr>)"
proof -
  have cin: "c \<in> set (conversationColl s)" using findOne_Some[OF f] by simp
  have "\<forall>d \<in> set (replace_conv (conversationColl s)
                 (c\<lparr>messages := messages c @ [nextId s], lastMessage := Some (nextId s),
                    lastMessageTime := now\<rparr>)).
          conv_id d < Suc (nextId s) \<and> (\<forall>k \<in> set (messages d). k < Suc (nextId s))"
  proof
    fix d assume "d \<in> set (replace_conv (conversationColl s)
                 (c\<lparr>messages := messages c @ [nextId s], lastMessage := Some (nextId s),
                    lastMessageTime := now\<rparr>))"
    then have "d = c\<lparr>messages := messages c @ [nextId s], lastMessage := Some (nextId s),
                    lastMessageTime := now\<rparr> \<or> d \<in> set (conversationColl s)"
      using set_replace_conv by fastforce
    then show "conv_id d < Suc (nextId s) \<and> (\<forall>k \<in> set (messages d). k < Suc (nextId s))"
      using ok cin by (auto simp: store_ok_iff less_Suc_eq)
  qed
  moreover have "nextId s \<notin> msg_id ` set (messageColl s)" using ok by (auto simp: store_ok_iff)
  ultimately show ?thesis using ok
    by (auto simp: store_ok_iff map_conv_id_replace less_Suc_eq)
qed

lemma store_ok_send_fresh:
  assumes ok: "store_ok s"
  shows "store_ok (s\<lparr>nextId := Suc (Suc (nextId s)),
         messageColl := messageColl s @ [\<lparr>msg_id = Suc (nextId s), senderId = u, receiverId = v, message = t,
                   conversationId = nextId s, isRead = False, messageType = TextMessage\<rparr>],
         conversationColl := replace_conv (conversationColl s @
                 [\<lparr>conv_id = nextId s, participants = [u, v], messages = [], lastMessage = None,
                   lastMessageTime = now, isGroup = False, groupName = None, groupAdmin = None\<rparr>])
                 \<lparr>conv_id = nextId s, participants = [u, v], messages = [Suc (nextId s)],
                   lastMessage = Some (Suc (nextId s)),
                   lastMessageTime = now, isGroup = False, groupName = None, groupAdmin = None\<rparr>\<rparr>)"
proof -
  have r: "replace_conv (conversationColl s @
                 [\<lparr>conv_id = nextId s, participants = [u, v], messages = [], lastMessage = None,
                   lastMessageTime = now, isGroup = False, groupName = None, groupAdmin = None\<rparr>])
                 \<lparr>conv_id = nextId s, participants = [u, v], messages = [Suc (nextId s)],
                   lastMessage = Some (Suc (nextId s)),
                   lastMessageTime = now, isGroup = False, groupName = None, groupAdmin = None\<rparr>
           = conversationColl s @ [\<lparr>conv_id = nextId s, participants = [u, v], messages = [Suc (nextId s)],
                   lastMessage = Some (Suc (nextId s)),
                   lastMessageTime = now, isGroup = False, groupName = None, groupAdmin = None\<rparr>]"
    using ok by (intro replace_conv_append_fresh) (auto simp: store_ok_iff)
  show ?thesis unfolding r using ok
    by (auto simp: store_ok_iff less_Suc_eq)
qed

lemma store_ok_send:
  assumes "store_ok s"
  shows "store_ok (fst (snd (send_message rs s now u v msg)))"
proof (cases "\<not> truthy msg \<or> trim (the msg) = []")
  case True
  then have "send_message rs s now u v msg = (Response 400 (Error ''Message content is required''), s, [])"
    unfolding send_message_def by (simp only: if_True)
  with assms show ?thesis by simp
next
  case False
  then have v: "truthy msg" "trim (the msg) \<noteq> []" by simp_all
  show ?thesis
  proof (cases "Conversation_findOne s (participants_all [u, v])")
    case None
    from send_message_fresh[OF v None, of rs now] store_ok_send_fresh[OF assms]
    show ?thesis by auto
  next
    case (Some c)
    from send_message_existing[OF v Some, of rs now] store_ok_send_existing[OF assms Some]
    show ?thesis by auto
  qed
qed

lemma store_ok_handle: "store_ok s \<Longrightarrow> store_ok (snd (handle rs s q))"
proof (cases q)
  case (Get u v)
  assume "store_ok s"
  then show ?thesis using Get
    by (auto simp: get_messages_def store_ok_updateMany split: option.splits)
next
  case (Send now u v msg)
  assume "store_ok s"
  from store_ok_send[OF this, of rs now u v msg] show ?thesis using Send
    by (simp add: split_beta)
next
  case (Delete u i)
  assume "store_ok s"
  then show ?thesis using Delete
    by (auto simp: delete_message_def Let_def store_ok_delete split: option.splits)
next
  case (MarkRead u c)
  assume "store_ok s"
  then show ?thesis using MarkRead
    by (simp add: mark_read_def store_ok_updateMany)
qed

lemma store_ok_empty: "store_ok empty_store"
  by (simp add: store_ok_def empty_store_def)

lemma db_step:
  "db (fst (step a e)) = (case e of Http q \<Rightarrow> snd (handle (relay a) (db a) q) | _ \<Rightarrow> db a)"
proof (cases e)
  case (Http q)
  then show ?thesis by (cases q) (simp_all add: split_beta)
qed (simp_all add: split_beta)

lemma store_ok_step: "store_ok (db a) \<Longrightarrow> store_ok (db (fst (step a e)))"
  by (cases e) (simp_all del: step.simps add: db_step store_ok_handle)

lemma store_ok_steps: "store_ok (db a) \<Longrightarrow> store_ok (db (steps a es))"
  by (induction es arbitrary: a) (simp_all del: step.simps add: store_ok_step)

lemma store_ok_example: "store_ok example_store"
  by code_simp

section \<open>Deleting a message\<close>

text \<open>
  An id that has been issued and that no stored message carries stays that way, whatever
  happens next: new messages take ids from the counter.
\<close>

lemma gone_updateMany:
  "i < nextId s \<and> (\<forall>x \<in> set (messageColl s). msg_id x \<noteq> i) \<Longrightarrow>
   i < nextId (Message_updateMany_isRead s q) \<and>
   (\<forall>x \<in> set (messageColl (Message_updateMany_isRead s q)). msg_id x \<noteq> i)"
  by (auto simp: Message_updateMany_isRead_def)

lemma gone_send:
  assumes "i < nextId s \<and> (\<forall>x \<in> set (messageColl s). msg_id x \<noteq> i)"
  shows "i < nextId (fst (snd (send_message rs s now u v msg))) \<and>
     (\<forall>x \<in> set (messageColl (fst (snd (send_message rs s now u v msg)))). msg_id x \<noteq> i)"
proof (cases "\<not> truthy msg \<or> trim (the msg) = []")
  case True
  then have "send_message rs s now u v msg = (Response 400 (Error ''Message content is required''), s, [])"
    unfolding send_message_def by (simp only: if_True)
  with assms show ?thesis by simp
next
  case False
  then have v: "truthy msg" "trim (the msg) \<noteq> []" by simp_all
  show ?thesis
  proof (cases "Conversation_findOne s (participants_all [u, v])")
    case None
    from send_message_fresh[OF v None, of rs now] assms show ?thesis by auto
  next
    case (Some c)
    from send_message_existing[OF v Some, of rs now] assms show ?thesis by auto
  qed
qed

lemma gone_handle:
  assumes "i < nextId s \<and> (\<forall>x \<in> set (messageColl s). msg_id x \<noteq> i)"
  shows "i < nextId (snd (handle rs s q)) \<and>
     (\<forall>x \<in> set (messageColl (snd (handle rs s q))). msg_id x \<noteq> i)"
proof (cases q)
  case (Get u v)
  then show ?thesis using assms gone_updateMany[OF assms]
    by (auto simp: get_messages_def split: option.splits)
next
  case (Send now u v msg)
  then show ?thesis using gone_send[OF assms, of rs now u v msg] by (simp add: split_beta)
next
  case (Delete u j)
  have "\<And>k. set (delete_msg (messageColl s) k) \<subseteq> set (messageColl s)" by (rule set_delete_msg)
  then show ?thesis using Delete assms
    by (auto simp: delete_message_def Let_def Conversation_findByIdAndUpdate_pull_def
        Message_findByIdAndDelete_def split: option.splits)
next
  case (MarkRead u c)
  then show ?thesis using gone_updateMany[OF assms] by (simp add: mark_read_def)
qed

lemma gone_step:
  assumes "i < nextId (db a) \<and> (\<forall>x \<in> set (messageColl (db a)). msg_id x \<noteq> i)"
  shows "i < nextId (db (fst (step a e))) \<and>
     (\<forall>x \<in> set (messageColl (db (fst (step a e)))). msg_id x \<noteq> i)"
  using assms gone_handle[OF assms] by (cases e) (simp_all del: step.simps add: db_step)

lemma gone_steps:
  "i < nextId (db a) \<and> (\<forall>x \<in> set (messageColl (db a)). msg_id x \<noteq> i) \<Longrightarrow>
   i < nextId (db (steps a es)) \<and> (\<forall>x \<in> set (messageColl (db (steps a es))). msg_id x \<noteq> i)"
proof (induction es arbitrary: a)
  case Nil then show ?case by simp
next
  case (Cons e es)
  from Cons.IH[OF gone_step[OF Cons.prems]] show ?case by (simp del: step.simps)
qed

lemma fetch_without:
  assumes "\<forall>x \<in> set (messageColl s). msg_id x \<noteq> i"
  shows "\<forall>x \<in> set (body_messages (json (fst (get_messages s v w)))). p_id x \<noteq> i"
proof (cases "Conversation_findOne s (participants_all [v, w])")
  case None
  then show ?thesis by (simp add: get_messages_def)
next
  case (Some c)
  have "\<forall>x \<in> set (populate_messages s (messages c)). p_id x \<noteq> i"
  proof
    fix x assume "x \<in> set (populate_messages s (messages c))"
    then obtain j m where "Message_findById s j = Some m" "x = populate_message s m"
      by (auto simp: in_populate_messages)
    then have "m \<in> set (messageColl s)" "p_id x = msg_id m"
      by (auto dest: Message_findById_id)
    with assms show "p_id x \<noteq> i" by auto
  qed
  then show ?thesis by (simp add: get_messages_Some[OF Some])
qed

lemma delete_message_ok:
  "Message_findById s i = Some m \<Longrightarrow> senderId m = u \<Longrightarrow>
   delete_message s u i = (Response 200 (Info ''Message deleted successfully''),
      s\<lparr>messageColl := delete_msg (messageColl s) i,
        conversationColl := pull_message (conversationColl s) (conversationId m) i\<rparr>)"
  by (simp add: delete_message_def Let_def Conversation_findByIdAndUpdate_pull_def
        Message_findByIdAndDelete_def)

text \<open>
  C3. Deleting answers 404 when no message has the id and 403 when the requester is not
  the sender, and returns the store unchanged in both cases. On success (200) the
  message's document is removed and no other, the id is no longer found, the owning
  conversation's list no longer holds it, and no thread fetched afterwards, after any
  further events, contains a message of that id.
\<close>

theorem delete_message_outcomes:
  "((\<forall>x \<in> set (messageColl s). msg_id x \<noteq> i) \<longrightarrow>
      delete_message s u i = (Response 404 (Error ''Message not found''), s)) \<and>
   (Message_findById s i = Some m \<and> senderId m \<noteq> u \<longrightarrow>
      delete_message s u i = (Response 403 (Error ''Not authorized to delete this message''), s)) \<and>
   (store_ok s \<and> Message_findById s i = Some m \<and> senderId m = u \<longrightarrow>
      status (fst (delete_message s u i)) = 200 \<and>
      messageColl (snd (delete_message s u i)) = filter (\<lambda>x. msg_id x \<noteq> i) (messageColl s) \<and>
      Message_findById (snd (delete_message s u i)) i = None \<and>
      (\<forall>c'. Conversation_findById (snd (delete_message s u i)) (conversationId m) = Some c'
           \<longrightarrow> i \<notin> set (messages c')) \<and>
      (\<forall>rs es v w. \<forall>x \<in> set (body_messages (json (fst (get_messages
            (db (steps \<lparr>relay = rs, db = snd (delete_message s u i)\<rparr> es)) v w)))). p_id x \<noteq> i))"
proof (intro conjI impI)
  assume "\<forall>x \<in> set (messageColl s). msg_id x \<noteq> i"
  then have "Message_findById s i = None" by (simp add: findById_None)
  then show "delete_message s u i = (Response 404 (Error ''Message not found''), s)"
    by (simp add: delete_message_def)
next
  assume "Message_findById s i = Some m \<and> senderId m \<noteq> u"
  then show "delete_message s u i = (Response 403 (Error ''Not authorized to delete this message''), s)"
    by (simp add: delete_message_def)
next
  assume h: "store_ok s \<and> Message_findById s i = Some m \<and> senderId m = u"
  then have d: "delete_message s u i = (Response 200 (Info ''Message deleted successfully''),
      s\<lparr>messageColl := delete_msg (messageColl s) i,
        conversationColl := pull_message (conversationColl s) (conversationId m) i\<rparr>)"
    by (intro delete_message_ok) simp_all
  have dist: "distinct (map msg_id (messageColl s))" using h by (simp add: store_ok_iff)
  have fil: "delete_msg (messageColl s) i = filter (\<lambda>x. msg_id x \<noteq> i) (messageColl s)"
    by (rule delete_msg_filter[OF dist])
  have lt: "i < nextId s" using h by (auto simp: store_ok_iff dest: Message_findById_id)
  show "status (fst (delete_message s u i)) = 200" by (simp add: d)
  show "messageColl (snd (delete_message s u i)) = filter (\<lambda>x. msg_id x \<noteq> i) (messageColl s)"
    by (simp add: d fil)
  show "Message_findById (snd (delete_message s u i)) i = None"
    by (simp add: d fil findById_None)
  show "\<forall>c'. Conversation_findById (snd (delete_message s u i)) (conversationId m) = Some c'
           \<longrightarrow> i \<notin> set (messages c')"
    by (auto simp: d Conversation_findById_def findById_pull_message)
  show "\<forall>rs es v w. \<forall>x \<in> set (body_messages (json (fst (get_messages
            (db (steps \<lparr>relay = rs, db = snd (delete_message s u i)\<rparr> es)) v w)))). p_id x \<noteq> i"
  proof (intro allI)
    fix rs es v w
    let ?a = "\<lparr>relay = rs, db = snd (delete_message s u i)\<rparr>"
    have "i < nextId (db ?a) \<and> (\<forall>x \<in> set (messageColl (db ?a)). msg_id x \<noteq> i)"
      using lt by (simp add: d fil)
    from gone_steps[OF this, of es]
    have "\<forall>x \<in> set (messageColl (db (steps ?a es))). msg_id x \<noteq> i" by simp
    then show "\<forall>x \<in> set (body_messages (json (fst (get_messages (db (steps ?a es)) v w)))). p_id x \<noteq> i"
      by (rule fetch_without)
  qed
qed

theorem delete_message_outcomes_witness:
  "delete_message example_store ''alice'' 9 = (Response 404 (Error ''Message not found''), example_store) \<and>
   delete_message example_store ''bob'' 1
     = (Response 403 (Error ''Not authorized to delete this message''), example_store) \<and>
   status (fst (delete_message example_store ''alice'' 1)) = 200 \<and>
   messageColl (snd (delete_message example_store ''alice'' 1))
     = filter (\<lambda>x. msg_id x \<noteq> 1) (messageColl example_store) \<and>
   Message_findById (snd (delete_message example_store ''alice'' 1)) 1 = None \<and>
   map messages (conversationColl (snd (delete_message example_store ''alice'' 1))) = [[2]] \<and>
   map p_id (body_messages (json (fst (get_messages
       (db (steps \<lparr>relay = initial_relay, db = snd (delete_message example_store ''alice'' 1)\<rparr>
              [Http (Send 30 ''alice'' ''bob'' (Some ''again''))])) ''bob'' ''alice'')))) = [2, 3]"
proof -
  have h1: "\<forall>x \<in> set (messageColl example_store). msg_id x \<noteq> 9" by code_simp
  have h2: "Message_findById example_store 1 = Some example_hi \<and> senderId example_hi \<noteq> ''bob''"
    by code_simp
  have h3: "store_ok example_store \<and> Message_findById example_store 1 = Some example_hi \<and>
            senderId example_hi = ''alice''"
    by code_simp
  note c1 = delete_message_outcomes [where s = example_store and i = 9 and u = "''alice''",
      THEN conjunct1, THEN mp, OF h1]
  note c2 = delete_message_outcomes [where s = example_store and i = 1 and u = "''bob''"
      and m = example_hi, THEN conjunct2, THEN conjunct1, THEN mp, OF h2]
  note T = delete_message_outcomes [where s = example_store and i = 1 and u = "''alice''"
      and m = example_hi, THEN conjunct2, THEN conjunct2, THEN mp, OF h3]
  note c3 = T[THEN conjunct1]
  note c4 = T[THEN conjunct2, THEN conjunct1]
  note c5 = T[THEN conjunct2, THEN conjunct2, THEN conjunct1]
  have e1: "map messages (conversationColl (snd (delete_message example_store ''alice'' 1))) = [[2]]"
    by code_simp
  have e2: "map p_id (body_messages (json (fst (get_messages
       (db (steps \<lparr>relay = initial_relay, db = snd (delete_message example_store ''alice'' 1)\<rparr>
              [Http (Send 30 ''alice'' ''bob'' (Some ''again''))])) ''bob'' ''alice'')))) = [2, 3]"
    by code_simp
  from c1 c2 c3 c4 c5 e1 e2 show ?thesis by blast
qed

text \<open>
  C10. A successful deletion leaves \<open>lastMessage\<close> and \<open>lastMessageTime\<close> of every
  conversation as they were; the owning conversation differs from before only in its
  \<open>messages\<close> list, and every other conversation is untouched. In particular, when
  the deleted message was the conversation's last one, \<open>lastMessage\<close> still holds its id.
\<close>

theorem delete_keeps_last_message_pointer:
  "Message_findById s i = Some m \<and> senderId m = u \<longrightarrow>
     status (fst (delete_message s u i)) = 200 \<and>
     length (conversationColl (snd (delete_message s u i))) = length (conversationColl s) \<and>
     map lastMessage (conversationColl (snd (delete_message s u i))) = map lastMessage (conversationColl s) \<and>
     map lastMessageTime (conversationColl (snd (delete_message s u i)))
        = map lastMessageTime (conversationColl s) \<and>
     (\<forall>j. j \<noteq> conversationId m \<longrightarrow>
        Conversation_findById (snd (delete_message s u i)) j = Conversation_findById s j) \<and>
     (\<forall>c. Conversation_findById s (conversationId m) = Some c \<longrightarrow>
        Conversation_findById (snd (delete_message s u i)) (conversationId m)
          = Some (c\<lparr>messages := removeAll i (messages c)\<rparr>)) \<and>
     (\<forall>c. Conversation_findById s (conversationId m) = Some c \<and> lastMessage c = Some i \<longrightarrow>
        (\<exists>c'. Conversation_findById (snd (delete_message s u i)) (conversationId m) = Some c' \<and>
              lastMessage c' = Some i \<and> lastMessageTime c' = lastMessageTime c \<and>
              i \<notin> set (messages c')))"
proof
  assume h: "Message_findById s i = Some m \<and> senderId m = u"
  then have d: "delete_message s u i = (Response 200 (Info ''Message deleted successfully''),
      s\<lparr>messageColl := delete_msg (messageColl s) i,
        conversationColl := pull_message (conversationColl s) (conversationId m) i\<rparr>)"
    by (intro delete_message_ok) simp_all
  show "status (fst (delete_message s u i)) = 200 \<and>
     length (conversationColl (snd (delete_message s u i))) = length (conversationColl s) \<and>
     map lastMessage (conversationColl (snd (delete_message s u i))) = map lastMessage (conversationColl s) \<and>
     map lastMessageTime (conversationColl (snd (delete_message s u i)))
        = map lastMessageTime (conversationColl s) \<and>
     (\<forall>j. j \<noteq> conversationId m \<longrightarrow>
        Conversation_findById (snd (delete_message s u i)) j = Conversation_findById s j) \<and>
     (\<forall>c. Conversation_findById s (conversationId m) = Some c \<longrightarrow>
        Conversation_findById (snd (delete_message s u i)) (conversationId m)
          = Some (c\<lparr>messages := removeAll i (messages c)\<rparr>)) \<and>
     (\<forall>c. Conversation_findById s (conversationId m) = Some c \<and> lastMessage c = Some i \<longrightarrow>
        (\<exists>c'. Conversation_findById (snd (delete_message s u i)) (conversationId m) = Some c' \<and>
              lastMessage c' = Some i \<and> lastMessageTime c' = lastMessageTime c \<and>
              i \<notin> set (messages c')))"
    unfolding d fst_conv snd_conv
    by (simp add: Conversation_findById_def findById_pull_message pull_message_frame)
qed

theorem delete_keeps_last_message_pointer_witness:
  "Message_findById example_store 2 = Some example_yo \<and> senderId example_yo = ''bob'' \<and>
   lastMessage example_conversation = Some 2 \<and>
   status (fst (delete_message example_store ''bob'' 2)) = 200 \<and>
   map lastMessage (conversationColl (snd (delete_message example_store ''bob'' 2)))
     = map lastMessage (conversationColl example_store) \<and>
   map lastMessageTime (conversationColl (snd (delete_message example_store ''bob'' 2)))
     = map lastMessageTime (conversationColl example_store) \<and>
   Conversation_findById (snd (delete_message example_store ''bob'' 2)) (conversationId example_yo)
     = Some (example_conversation\<lparr>messages := removeAll 2 (messages example_conversation)\<rparr>) \<and>
   map lastMessage (conversationColl (snd (delete_message example_store ''bob'' 2))) = [Some 2] \<and>
   map messages (conversationColl (snd (delete_message example_store ''bob'' 2))) = [[1]] \<and>
   Message_findById (snd (delete_message example_store ''bob'' 2)) 2 = None"
proof -
  have h: "Message_findById example_store 2 = Some example_yo \<and> senderId example_yo = ''bob''"
    by code_simp
  have g: "Conversation_findById example_store (conversationId example_yo) = Some example_conversation"
    by code_simp
  have l: "lastMessage example_conversation = Some 2" by code_simp
  note T = delete_keeps_last_message_pointer [where s = example_store and i = 2
      and m = example_yo and u = "''bob''", THEN mp, OF h]
  note c1 = T[THEN conjunct1]
  note c2 = T[THEN conjunct2, THEN conjunct2, THEN conjunct1]
  note c3 = T[THEN conjunct2, THEN conjunct2, THEN conjunct2, THEN conjunct1]
  note c4 = T[THEN conjunct2, THEN conjunct2, THEN conjunct2, THEN conjunct2, THEN conjunct2,
      THEN conjunct1, THEN spec, of example_conversation, THEN mp, OF g]
  have e1: "map lastMessage (conversationColl (snd (delete_message example_store ''bob'' 2))) = [Some 2]"
    by code_simp
  have e2: "map messages (conversationColl (snd (delete_message example_store ''bob'' 2))) = [[1]]"
    by code_simp
  have e3: "Message_findById (snd (delete_message example_store ''bob'' 2)) 2 = None"
    by code_simp
  from h l c1 c2 c3 c4 e1 e2 e3 show ?thesis by blast
qed

section \<open>Sending a message\<close>

lemma participants_all_pair:
  "participants_all [u, v] c \<longleftrightarrow> u \<in> set (participants c) \<and> v \<in> set (participants c)"
  by (simp add: participants_all_def)

lemma participants_all_two:
  assumes "u \<noteq> v" "length (participants c) = 2"
  shows "participants_all [u, v] c \<longleftrightarrow> set (participants c) = {u, v}"
proof -
  from assms(2) obtain x y where p: "participants c = [x, y]"
    by (cases "participants c"; cases "tl (participants c)") auto
  show ?thesis using assms(1) by (auto simp: participants_all_pair p)
qed

subsection \<open>Conversations have two participants\<close>

lemma pairs_only_iff:
  "pairs_only s \<longleftrightarrow> (\<forall>c \<in> set (conversationColl s). length (participants c) = 2)"
  by (simp add: pairs_only_def list_all_iff)

lemma pairs_only_empty: "pairs_only empty_store"
  by (simp add: pairs_only_def empty_store_def)

lemma pairs_only_example: "pairs_only example_store"
  by (simp add: pairs_only_def example_store_def example_conversation_def)

lemma pairs_only_updateMany: "pairs_only (Message_updateMany_isRead s q) = pairs_only s"
  by (simp add: pairs_only_def Message_updateMany_isRead_def)

lemma pairs_only_send:
  assumes "pairs_only s"
  shows "pairs_only (fst (snd (send_message rs s now u v msg)))"
proof (cases "\<not> truthy msg \<or> trim (the msg) = []")
  case True
  then have "send_message rs s now u v msg = (Response 400 (Error ''Message content is required''), s, [])"
    unfolding send_message_def by (simp only: if_True)
  with assms show ?thesis by simp
next
  case False
  then have v: "truthy msg" "trim (the msg) \<noteq> []" by simp_all
  show ?thesis
  proof (cases "Conversation_findOne s (participants_all [u, v])")
    case None
    let ?c0 = "\<lparr>conv_id = nextId s, participants = [u, v], messages = [], lastMessage = None,
                lastMessageTime = now, isGroup = False, groupName = None, groupAdmin = None\<rparr>"
    let ?c1 = "\<lparr>conv_id = nextId s, participants = [u, v], messages = [Suc (nextId s)],
                lastMessage = Some (Suc (nextId s)),
                lastMessageTime = now, isGroup = False, groupName = None, groupAdmin = None\<rparr>"
    have "\<forall>c \<in> set (replace_conv (conversationColl s @ [?c0]) ?c1). length (participants c) = 2"
    proof
      fix c assume "c \<in> set (replace_conv (conversationColl s @ [?c0]) ?c1)"
      then have "c = ?c1 \<or> c \<in> set (conversationColl s @ [?c0])"
        using set_replace_conv by fastforce
      then show "length (participants c) = 2" using assms by (auto simp: pairs_only_iff)
    qed
    with send_message_fresh[OF v None, of rs now] show ?thesis
      by (auto simp: pairs_only_iff)
  next
    case (Some c)
    let ?c1 = "c\<lparr>messages := messages c @ [nextId s], lastMessage := Some (nextId s),
                  lastMessageTime := now\<rparr>"
    have cin: "c \<in> set (conversationColl s)" using findOne_Some[OF Some] by simp
    have "\<forall>d \<in> set (replace_conv (conversationColl s) ?c1). length (participants d) = 2"
    proof
      fix d assume "d \<in> set (replace_conv (conversationColl s) ?c1)"
      then have "d = ?c1 \<or> d \<in> set (conversationColl s)"
        using set_replace_conv by fastforce
      then show "length (participants d) = 2" using assms cin by (auto simp: pairs_only_iff)
    qed
    with send_message_existing[OF v Some, of rs now] show ?thesis
      by (auto simp: pairs_only_iff)
  qed
qed

lemma pairs_only_delete:
  "pairs_only s \<Longrightarrow>
     pairs_only (Conversation_findByIdAndUpdate_pull (Message_findByIdAndDelete s i) j i)"
proof -
  assume a: "pairs_only s"
  have "list_all (\<lambda>p. length p = 2) (map participants (pull_message (conversationColl s) j i))"
    using a by (simp add: pull_message_frame pairs_only_def list_all_iff)
  then show ?thesis
    by (simp add: pairs_only_def list_all_iff Conversation_findByIdAndUpdate_pull_def
          Message_findByIdAndDelete_def)
qed

lemma pairs_only_handle: "pairs_only s \<Longrightarrow> pairs_only (snd (handle rs s q))"
proof (cases q)
  case (Get u v)
  assume "pairs_only s"
  then show ?thesis using Get
    by (auto simp: get_messages_def pairs_only_updateMany split: option.splits)
next
  case (Send now u v msg)
  assume "pairs_only s"
  from pairs_only_send[OF this, of rs now u v msg] show ?thesis using Send
    by (simp add: split_beta)
next
  case (Delete u i)
  assume "pairs_only s"
  then show ?thesis using Delete
    by (auto simp: delete_message_def Let_def pairs_only_delete split: option.splits)
next
  case (MarkRead u c)
  assume "pairs_only s"
  then show ?thesis using MarkRead
    by (simp add: mark_read_def pairs_only_updateMany)
qed

lemma pairs_only_step: "pairs_only (db a) \<Longrightarrow> pairs_only (db (fst (step a e)))"
  by (cases e) (simp_all del: step.simps add: db_step pairs_only_handle)

lemma pairs_only_steps: "pairs_only (db a) \<Longrightarrow> pairs_only (db (steps a es))"
  by (induction es arbitrary: a) (simp_all del: step.simps add: pairs_only_step)

subsection \<open>A first message between two different users\<close>

text \<open>
  On every store the routes produce, and for a sender different from the receiver, the
  lookup matches exactly the conversations whose participant set is the pair; when there
  is none, a valid send appends exactly one conversation, with participants
  \<open>[sender, receiver]\<close> and a message list holding just the id of the one message it
  appends to the message collection.
\<close>

lemma send_creates_conversation_distinct:
  assumes ok: "store_ok s" and po: "pairs_only s" and ne: "u \<noteq> v"
    and msg: "truthy msg" "trim (the msg) \<noteq> []"
  shows "\<forall>c \<in> set (conversationColl s).
           participants_all [u, v] c \<longleftrightarrow> set (participants c) = {u, v}"
    and "(\<forall>c \<in> set (conversationColl s). set (participants c) \<noteq> {u, v}) \<Longrightarrow>
      fst (send_message rs s now u v msg) =
        Response 201 (PopulatedMessage (populate_message s
          \<lparr>msg_id = Suc (nextId s), senderId = u, receiverId = v, message = trim (the msg),
            conversationId = nextId s, isRead = False, messageType = TextMessage\<rparr>)) \<and>
      conversationColl (fst (snd (send_message rs s now u v msg))) =
        conversationColl s @
          [\<lparr>conv_id = nextId s, participants = [u, v], messages = [Suc (nextId s)],
            lastMessage = Some (Suc (nextId s)), lastMessageTime = now, isGroup = False,
            groupName = None, groupAdmin = None\<rparr>] \<and>
      messageColl (fst (snd (send_message rs s now u v msg))) =
        messageColl s @
          [\<lparr>msg_id = Suc (nextId s), senderId = u, receiverId = v, message = trim (the msg),
            conversationId = nextId s, isRead = False, messageType = TextMessage\<rparr>] \<and>
      userColl (fst (snd (send_message rs s now u v msg))) = userColl s"
proof -
  show eq: "\<forall>c \<in> set (conversationColl s).
           participants_all [u, v] c \<longleftrightarrow> set (participants c) = {u, v}"
    using po ne by (auto simp: pairs_only_iff participants_all_two)
  assume none: "\<forall>c \<in> set (conversationColl s). set (participants c) \<noteq> {u, v}"
  have n: "Conversation_findOne s (participants_all [u, v]) = None"
    using eq none by (simp add: Conversation_findOne_def find_None_iff)
  have r: "replace_conv (conversationColl s @
                 [\<lparr>conv_id = nextId s, participants = [u, v], messages = [], lastMessage = None,
                   lastMessageTime = now, isGroup = False, groupName = None, groupAdmin = None\<rparr>])
                 \<lparr>conv_id = nextId s, participants = [u, v], messages = [Suc (nextId s)],
                   lastMessage = Some (Suc (nextId s)),
                   lastMessageTime = now, isGroup = False, groupName = None, groupAdmin = None\<rparr>
           = conversationColl s @ [\<lparr>conv_id = nextId s, participants = [u, v], messages = [Suc (nextId s)],
                   lastMessage = Some (Suc (nextId s)),
                   lastMessageTime = now, isGroup = False, groupName = None, groupAdmin = None\<rparr>]"
    using ok by (intro replace_conv_append_fresh) (auto simp: store_ok_iff)
  from send_message_fresh[OF msg n, of rs now] r
  show "fst (send_message rs s now u v msg) =
        Response 201 (PopulatedMessage (populate_message s
          \<lparr>msg_id = Suc (nextId s), senderId = u, receiverId = v, message = trim (the msg),
            conversationId = nextId s, isRead = False, messageType = TextMessage\<rparr>)) \<and>
      conversationColl (fst (snd (send_message rs s now u v msg))) =
        conversationColl s @
          [\<lparr>conv_id = nextId s, participants = [u, v], messages = [Suc (nextId s)],
            lastMessage = Some (Suc (nextId s)), lastMessageTime = now, isGroup = False,
            groupName = None, groupAdmin = None\<rparr>] \<and>
      messageColl (fst (snd (send_message rs s now u v msg))) =
        messageColl s @
          [\<lparr>msg_id = Suc (nextId s), senderId = u, receiverId = v, message = trim (the msg),
            conversationId = nextId s, isRead = False, messageType = TextMessage\<rparr>] \<and>
      userColl (fst (snd (send_message rs s now u v msg))) = userColl s"
    by auto
qed

lemma first_message_example:
  "map participants (conversationColl (fst (snd (send_message initial_relay example_store 30
        ''alice'' ''carol'' (Some ''hello''))))) = [[''alice'', ''bob''], [''alice'', ''carol'']] \<and>
   map messages (conversationColl (fst (snd (send_message initial_relay example_store 30
        ''alice'' ''carol'' (Some ''hello''))))) = [[1, 2], [4]]"
  by code_simp

subsection \<open>A message to oneself\<close>

text \<open>
  C1. The code breaks the claim when a user writes to themselves. In the sample store
  (reached by two sends) alice has a conversation with bob and none with herself alone:
  no conversation's participant set is \<open>{alice}\<close>. The lookup of her send to herself
  asks for a conversation containing alice and alice, matches the one with bob, and the
  route creates no conversation and files the note there, where bob's next fetch
  returns it.
\<close>

theorem send_to_self_joins_other_conversation:
  "conversationColl example_store = [example_conversation] \<and>
   set (participants example_conversation) \<noteq> {''alice''} \<and>
   Conversation_findOne example_store (participants_all [''alice'', ''alice''])
     = Some example_conversation \<and>
   status (fst (send_message initial_relay example_store 30 ''alice'' ''alice'' (Some ''note''))) = 201 \<and>
   map participants (conversationColl (fst (snd (send_message initial_relay example_store 30
        ''alice'' ''alice'' (Some ''note''))))) = [[''alice'', ''bob'']] \<and>
   map messages (conversationColl (fst (snd (send_message initial_relay example_store 30
        ''alice'' ''alice'' (Some ''note''))))) = [[1, 2, 3]] \<and>
   map p_message (body_messages (json (fst (get_messages
        (fst (snd (send_message initial_relay example_store 30 ''alice'' ''alice'' (Some ''note''))))
        ''bob'' ''alice'')))) = [''hi'', ''yo'', ''note'']"
  by code_simp

theorem send_to_self_joins_other_conversation_witness:
  "length (conversationColl (fst (snd (send_message initial_relay example_store 30
        ''alice'' ''alice'' (Some ''note''))))) = length (conversationColl example_store)"
proof -
  note T = send_to_self_joins_other_conversation
  have "length (map participants (conversationColl (fst (snd (send_message initial_relay
          example_store 30 ''alice'' ''alice'' (Some ''note'')))))) = length [[''alice'', ''bob'']]"
    by (simp only: T)
  moreover have "length (conversationColl example_store) = length [example_conversation]"
    by (simp only: T)
  ultimately show ?thesis by simp
qed

subsection \<open>Sending into an existing conversation\<close>

lemma findOne_sym:
  "Conversation_findOne s (participants_all [b, a]) = Conversation_findOne s (participants_all [a, b])"
proof -
  have "participants_all [b, a] = participants_all [a, b]"
    by (rule ext) (auto simp: participants_all_pair)
  then show ?thesis by simp
qed

lemma send_step:
  assumes ok: "store_ok s" and f: "Conversation_findOne s (participants_all [a, b]) = Some c"
    and q: "send_between a b q"
  shows "\<exists>c'. store_ok (snd (handle rs s q)) \<and>
     status (fst (handle rs s q)) = 201 \<and> sent_id (fst (handle rs s q)) = Some (nextId s) \<and>
     Conversation_findOne (snd (handle rs s q)) (participants_all [a, b]) = Some c' \<and>
     conv_id c' = conv_id c \<and> messages c' = messages c @ [nextId s] \<and>
     lastMessage c' = Some (nextId s)"
proof -
  from q obtain now u v msg where qq: "q = Send now u v msg"
    and uv: "(u = a \<and> v = b) \<or> (u = b \<and> v = a)" and v: "truthy msg" "trim (the msg) \<noteq> []"
    by (cases q) auto
  from uv f have fu: "Conversation_findOne s (participants_all [u, v]) = Some c"
    using findOne_sym[of s b a] by auto
  let ?c' = "c\<lparr>messages := messages c @ [nextId s], lastMessage := Some (nextId s),
                lastMessageTime := now\<rparr>"
  let ?s' = "s\<lparr>nextId := Suc (nextId s),
         messageColl := messageColl s @
                 [\<lparr>msg_id = nextId s, senderId = u, receiverId = v, message = trim (the msg),
                   conversationId = conv_id c, isRead = False, messageType = TextMessage\<rparr>],
         conversationColl := replace_conv (conversationColl s) ?c'\<rparr>"
  from send_message_existing[OF v fu, of rs now] obtain es where
    e: "send_message rs s now u v msg =
     (Response 201 (PopulatedMessage (populate_message s
          \<lparr>msg_id = nextId s, senderId = u, receiverId = v, message = trim (the msg),
            conversationId = conv_id c, isRead = False, messageType = TextMessage\<rparr>)), ?s', es)"
    by blast
  have h: "handle rs s q = (Response 201 (PopulatedMessage (populate_message s
          \<lparr>msg_id = nextId s, senderId = u, receiverId = v, message = trim (the msg),
            conversationId = conv_id c, isRead = False, messageType = TextMessage\<rparr>)), ?s')"
    by (simp add: qq e)
  have ok': "store_ok ?s'" by (rule store_ok_send_existing[OF ok fu])
  have d: "distinct (map conv_id (conversationColl s))" using ok by (simp add: store_ok_iff)
  have P: "participants_all [a, b] ?c'"
    using findOne_Some[OF f] by (simp add: participants_all_pair)
  have "find (participants_all [a, b]) (replace_conv (conversationColl s) ?c') = Some ?c'"
  proof (rule find_replace_conv[where c = c])
    show "distinct (map conv_id (conversationColl s))" by (rule d)
    show "find (participants_all [a, b]) (conversationColl s) = Some c"
      using f by (simp add: Conversation_findOne_def)
    show "participants_all [a, b] ?c'" by (rule P)
    show "conv_id ?c' = conv_id c" by simp
  qed
  then have f': "Conversation_findOne ?s' (participants_all [a, b]) = Some ?c'"
    by (simp add: Conversation_findOne_def)
  show ?thesis
    unfolding h fst_conv snd_conv using ok' f'
    by (intro exI[of _ ?c']) simp
qed

lemma run_Cons:
  "run rs s (q # qs) = (fst (handle rs s q) # fst (run rs (snd (handle rs s q)) qs),
                        snd (run rs (snd (handle rs s q)) qs))"
  by (simp add: split_beta)

lemma length_run [simp]: "length (fst (run rs s qs)) = length qs"
  by (induction qs arbitrary: s) (simp_all add: split_beta)

lemma sends_run:
  "store_ok s \<Longrightarrow> Conversation_findOne s (participants_all [a, b]) = Some c \<Longrightarrow>
   \<forall>q \<in> set qs. send_between a b q \<Longrightarrow>
   \<exists>c' ids. store_ok (snd (run rs s qs)) \<and>
     Conversation_findOne (snd (run rs s qs)) (participants_all [a, b]) = Some c' \<and>
     conv_id c' = conv_id c \<and> messages c' = messages c @ ids \<and>
     map Some ids = map sent_id (fst (run rs s qs)) \<and>
     (\<forall>r \<in> set (fst (run rs s qs)). status r = 201) \<and>
     (qs \<noteq> [] \<longrightarrow> lastMessage c' = Some (last ids))"
proof (induction qs arbitrary: s c)
  case Nil
  then show ?case by simp
next
  case (Cons q qs)
  from Cons.prems have q: "send_between a b q" and qs: "\<forall>q \<in> set qs. send_between a b q"
    by simp_all
  from send_step[OF Cons.prems(1,2) q, of rs] obtain c1 where
    c1: "store_ok (snd (handle rs s q))" "status (fst (handle rs s q)) = 201"
      "sent_id (fst (handle rs s q)) = Some (nextId s)"
      "Conversation_findOne (snd (handle rs s q)) (participants_all [a, b]) = Some c1"
      "conv_id c1 = conv_id c" "messages c1 = messages c @ [nextId s]"
      "lastMessage c1 = Some (nextId s)" by blast
  from Cons.IH[OF c1(1) c1(4) qs] obtain c' ids where
    r: "store_ok (snd (run rs (snd (handle rs s q)) qs))"
      "Conversation_findOne (snd (run rs (snd (handle rs s q)) qs)) (participants_all [a, b]) = Some c'"
      "conv_id c' = conv_id c1" "messages c' = messages c1 @ ids"
      "map Some ids = map sent_id (fst (run rs (snd (handle rs s q)) qs))"
      "\<forall>r \<in> set (fst (run rs (snd (handle rs s q)) qs)). status r = 201"
      "qs \<noteq> [] \<longrightarrow> lastMessage c' = Some (last ids)" by blast
  have e: "qs = [] \<Longrightarrow> c' = c1 \<and> ids = []" using r(2,5) c1(4) by simp
  have l: "lastMessage c' = Some (last (nextId s # ids))"
  proof (cases "qs = []")
    case True with e c1(7) show ?thesis by simp
  next
    case False
    with r(5) have "ids \<noteq> []" by (metis length_run length_map length_0_conv)
    with False r(7) show ?thesis by simp
  qed
  show ?case
    unfolding run_Cons fst_conv snd_conv
    using r c1 l by (intro exI[of _ c'] exI[of _ "nextId s # ids"]) simp
qed

text \<open>
  C6. When the lookup for the pair \<open>a\<close>, \<open>b\<close> finds conversation \<open>c\<close>, any sequence of
  \<open>N\<close> valid sends between \<open>a\<close> and \<open>b\<close> (in either direction) is answered 201
  throughout and leaves that conversation with its old message list followed by the \<open>N\<close>
  ids answered, in order: the length grows by \<open>N\<close>, and for \<open>N > 0\<close> \<open>lastMessage\<close> is
  the id of the last message sent.
\<close>

theorem sends_extend_conversation:
  "store_ok s \<and> Conversation_findOne s (participants_all [a, b]) = Some c \<and>
   (\<forall>q \<in> set qs. send_between a b q) \<longrightarrow>
     (\<forall>r \<in> set (fst (run rs s qs)). status r = 201) \<and>
     (\<exists>c'. Conversation_findById (snd (run rs s qs)) (conv_id c) = Some c' \<and>
           Conversation_findOne (snd (run rs s qs)) (participants_all [a, b]) = Some c' \<and>
           length (messages c') = length (messages c) + length qs \<and>
           take (length (messages c)) (messages c') = messages c \<and>
           map Some (drop (length (messages c)) (messages c')) = map sent_id (fst (run rs s qs)) \<and>
           (qs \<noteq> [] \<longrightarrow> lastMessage c' = sent_id (last (fst (run rs s qs))) \<and>
                          lastMessage c' = Some (last (messages c'))))"
proof
  assume h: "store_ok s \<and> Conversation_findOne s (participants_all [a, b]) = Some c \<and>
   (\<forall>q \<in> set qs. send_between a b q)"
  then obtain c' ids where
    r: "store_ok (snd (run rs s qs))"
      "Conversation_findOne (snd (run rs s qs)) (participants_all [a, b]) = Some c'"
      "conv_id c' = conv_id c" "messages c' = messages c @ ids"
      "map Some ids = map sent_id (fst (run rs s qs))"
      "\<forall>r \<in> set (fst (run rs s qs)). status r = 201"
      "qs \<noteq> [] \<longrightarrow> lastMessage c' = Some (last ids)"
    using sends_run[of s a b c qs rs] by blast
  have len: "length ids = length qs" using r(5) by (metis length_map length_run)
  have "c' \<in> set (conversationColl (snd (run rs s qs)))" using findOne_Some[OF r(2)] by simp
  then have byid: "Conversation_findById (snd (run rs s qs)) (conv_id c) = Some c'"
    using r(1,3) find_by_id_member[of "conversationColl (snd (run rs s qs))" c']
    by (simp add: Conversation_findById_def store_ok_iff)
  have lastp: "qs \<noteq> [] \<longrightarrow> lastMessage c' = sent_id (last (fst (run rs s qs))) \<and>
                          lastMessage c' = Some (last (messages c'))"
  proof
    assume ne: "qs \<noteq> []"
    then have ine: "ids \<noteq> []" using len by auto
    have rne: "fst (run rs s qs) \<noteq> []" using ne by (metis length_run length_0_conv)
    have "Some (last ids) = last (map Some ids)" using ine by (simp add: last_map)
    also have "\<dots> = sent_id (last (fst (run rs s qs)))" using rne by (simp add: r(5) last_map)
    finally show "lastMessage c' = sent_id (last (fst (run rs s qs))) \<and>
                          lastMessage c' = Some (last (messages c'))"
      using r(4,7) ne ine by simp
  qed
  show "(\<forall>r \<in> set (fst (run rs s qs)). status r = 201) \<and>
     (\<exists>c'. Conversation_findById (snd (run rs s qs)) (conv_id c) = Some c' \<and>
           Conversation_findOne (snd (run rs s qs)) (participants_all [a, b]) = Some c' \<and>
           length (messages c') = length (messages c) + length qs \<and>
           take (length (messages c)) (messages c') = messages c \<and>
           map Some (drop (length (messages c)) (messages c')) = map sent_id (fst (run rs s qs)) \<and>
           (qs \<noteq> [] \<longrightarrow> lastMessage c' = sent_id (last (fst (run rs s qs))) \<and>
                          lastMessage c' = Some (last (messages c'))))"
  proof -
    have p3: "length (messages c') = length (messages c) + length qs" by (simp add: r(4) len)
    have p4: "take (length (messages c)) (messages c') = messages c" by (simp add: r(4))
    have p5: "map Some (drop (length (messages c)) (messages c')) = map sent_id (fst (run rs s qs))"
      by (simp add: r(4) r(5))
    from r(6) byid r(2) p3 p4 p5 lastp show ?thesis by blast
  qed
qed

theorem sends_extend_conversation_witness:
  "store_ok example_store \<and>
   Conversation_findOne example_store (participants_all [''alice'', ''bob'']) = Some example_conversation \<and>
   (\<exists>c'. Conversation_findById (snd (run initial_relay example_store
              [Send 30 ''alice'' ''bob'' (Some ''a''), Send 40 ''bob'' ''alice'' (Some ''b'')]))
            (conv_id example_conversation) = Some c' \<and>
         length (messages c') = length (messages example_conversation)
            + length [Send 30 ''alice'' ''bob'' (Some ''a''), Send 40 ''bob'' ''alice'' (Some ''b'')] \<and>
         lastMessage c' = sent_id (last (fst (run initial_relay example_store
              [Send 30 ''alice'' ''bob'' (Some ''a''), Send 40 ''bob'' ''alice'' (Some ''b'')])))) \<and>
   Conversation_findById (snd (run initial_relay example_store
       [Send 30 ''alice'' ''bob'' (Some ''a''), Send 40 ''bob'' ''alice'' (Some ''b'')])) 0
     = Some (example_conversation\<lparr>messages := [1, 2, 3, 4], lastMessage := Some 4,
                                  lastMessageTime := 40\<rparr>) \<and>
   map sent_id (fst (run initial_relay example_store
       [Send 30 ''alice'' ''bob'' (Some ''a''), Send 40 ''bob'' ''alice'' (Some ''b'')]))
     = [Some 3, Some 4]"
proof -
  let ?qs = "[Send 30 ''alice'' ''bob'' (Some ''a''), Send 40 ''bob'' ''alice'' (Some ''b'')]"
  have h1: "store_ok example_store" by code_simp
  have h2: "Conversation_findOne example_store (participants_all [''alice'', ''bob'']) = Some example_conversation"
    by code_simp
  have h3: "\<forall>q \<in> set ?qs. send_between ''alice'' ''bob'' q" by code_simp
  have ne: "?qs \<noteq> []" by simp
  from h1 h2 h3 have h: "store_ok example_store \<and>
      Conversation_findOne example_store (participants_all [''alice'', ''bob'']) = Some example_conversation \<and>
      (\<forall>q \<in> set ?qs. send_between ''alice'' ''bob'' q)" by blast
  note T = sends_extend_conversation [where s = example_store and a = "''alice''" and b = "''bob''"
      and c = example_conversation and qs = ?qs and rs = initial_relay, THEN mp, OF h]
  have c1: "\<exists>c'. Conversation_findById (snd (run initial_relay example_store ?qs))
            (conv_id example_conversation) = Some c' \<and>
         length (messages c') = length (messages example_conversation) + length ?qs \<and>
         lastMessage c' = sent_id (last (fst (run initial_relay example_store ?qs)))"
    using T[THEN conjunct2] ne by blast
  have e1: "Conversation_findById (snd (run initial_relay example_store ?qs)) 0
     = Some (example_conversation\<lparr>messages := [1, 2, 3, 4], lastMessage := Some 4,
                                  lastMessageTime := 40\<rparr>)"
    by code_simp
  have e2: "map sent_id (fst (run initial_relay example_store ?qs)) = [Some 3, Some 4]"
    by code_simp
  from h1 h2 c1 e1 e2 show ?thesis by blast
qed

end
